theory Spec2Isabelle
  imports Complex_Main
begin

section \<open>Common conventions\<close>

text \<open>
  Tensors of floats are lists (or lists of lists) of reals: arithmetic is exact, rounding is
  not modelled. A 2-D tensor is a list of rows. Python exceptions are values of \<open>error\<close>;
  a function that may raise returns \<open>error + 'a\<close>.
\<close>

datatype error = AssertionError | ValueError | IndexError | RuntimeError | ResourceError

definition width :: "'a list list \<Rightarrow> nat" where
  "width x = (case x of [] \<Rightarrow> 0 | row # _ \<Rightarrow> length row)"

definition shaped :: "nat \<Rightarrow> nat \<Rightarrow> 'a list list \<Rightarrow> bool" where
  "shaped H W x = (length x = H \<and> list_all (\<lambda>row. length row = W) x)"

definition tabulate2 :: "nat \<Rightarrow> nat \<Rightarrow> (nat \<Rightarrow> nat \<Rightarrow> 'a) \<Rightarrow> 'a list list" where
  "tabulate2 H W f = map (\<lambda>i. map (\<lambda>j. f i j) [0..<W]) [0..<H]"

section \<open>img2superpoint.py: the detector\<close>

subsection \<open>simple\_nms\<close>

text \<open>
  \<open>max_pool2d\<close> with kernel \<open>2r+1\<close>, stride 1 and padding \<open>r\<close>: the padding never wins the
  maximum, so the value at \<open>(i, j)\<close> is the maximum over the in-bounds cells of the window.
\<close>

definition window :: "nat \<Rightarrow> nat \<Rightarrow> nat \<Rightarrow> nat list" where
  "window r n i = [i - r ..< min n (i + r + 1)]"

definition max_pool_at :: "nat \<Rightarrow> real list list \<Rightarrow> nat \<Rightarrow> nat \<Rightarrow> real" where
  "max_pool_at r x i j =
     Max (set (concat (map (\<lambda>i'. map (\<lambda>j'. x ! i' ! j') (window r (width x) j))
                           (window r (length x) i))))"

definition max_pool :: "nat \<Rightarrow> real list list \<Rightarrow> real list list" where
  "max_pool r x = tabulate2 (length x) (width x) (max_pool_at r x)"

definition zeros_like :: "real list list \<Rightarrow> real list list" where
  "zeros_like x = tabulate2 (length x) (width x) (\<lambda>i j. 0)"

definition eq2 :: "real list list \<Rightarrow> real list list \<Rightarrow> bool list list" where
  "eq2 a b = tabulate2 (length a) (width a) (\<lambda>i j. a ! i ! j = b ! i ! j)"

definition to_float :: "bool list list \<Rightarrow> real list list" where
  "to_float m = tabulate2 (length m) (width m) (\<lambda>i j. if m ! i ! j then 1 else 0)"

definition gt0 :: "real list list \<Rightarrow> bool list list" where
  "gt0 a = tabulate2 (length a) (width a) (\<lambda>i j. a ! i ! j > 0)"

definition where2 :: "bool list list \<Rightarrow> real list list \<Rightarrow> real list list \<Rightarrow> real list list" where
  "where2 m a b = tabulate2 (length m) (width m) (\<lambda>i j. if m ! i ! j then a ! i ! j else b ! i ! j)"

definition or_and_not :: "bool list list \<Rightarrow> bool list list \<Rightarrow> bool list list \<Rightarrow> bool list list" where
  \<comment> \<open>\<open>max_mask | (new_max_mask & (~supp_mask))\<close>\<close>
  "or_and_not m n s =
     tabulate2 (length m) (width m) (\<lambda>i j. m ! i ! j \<or> (n ! i ! j \<and> \<not> s ! i ! j))"

definition nms_round :: "nat \<Rightarrow> real list list \<Rightarrow> bool list list \<Rightarrow> bool list list" where
  "nms_round r scores max_mask =
     (let supp_mask = gt0 (max_pool r (to_float max_mask));
          supp_scores = where2 supp_mask (zeros_like scores) scores;
          new_max_mask = eq2 supp_scores (max_pool r supp_scores)
      in or_and_not max_mask new_max_mask supp_mask)"

fun nms_loop :: "nat \<Rightarrow> nat \<Rightarrow> real list list \<Rightarrow> bool list list \<Rightarrow> bool list list" where
  "nms_loop 0 r scores max_mask = max_mask"
| "nms_loop (Suc k) r scores max_mask = nms_loop k r scores (nms_round r scores max_mask)"

definition simple_nms :: "real list list \<Rightarrow> int \<Rightarrow> error + real list list" where
  "simple_nms scores nms_radius =
     (if \<not> nms_radius \<ge> 0 then Inl AssertionError
      else let r = nat nms_radius;
               zeros = zeros_like scores;
               max_mask = eq2 scores (max_pool r scores);
               max_mask = nms_loop 2 r scores max_mask
           in Inr (where2 max_mask scores zeros))"

subsection \<open>remove\_borders\<close>

text \<open>
  A keypoint is a row of \<open>torch.nonzero\<close>: (row, column), so column 0 is the \<open>y\<close> coordinate,
  compared with the height, and column 1 is \<open>x\<close>. Indexing with a boolean mask of another
  length raises.
\<close>

definition select_mask :: "bool list \<Rightarrow> 'a list \<Rightarrow> error + 'a list" where
  "select_mask msk xs =
     (if length msk \<noteq> length xs then Inl IndexError
      else Inr (map snd (filter fst (zip msk xs))))"

definition remove_borders ::
  "(int \<times> int) list \<Rightarrow> 'a list \<Rightarrow> int \<Rightarrow> int \<Rightarrow> int \<Rightarrow> error + ((int \<times> int) list \<times> 'a list)" where
  "remove_borders keypoints scores border height width' =
     (let mask_h = map (\<lambda>k. fst k \<ge> border \<and> fst k < height - border) keypoints;
          mask_w = map (\<lambda>k. snd k \<ge> border \<and> snd k < width' - border) keypoints;
          msk = map2 (\<and>) mask_h mask_w
      in case select_mask msk keypoints of
           Inl e \<Rightarrow> Inl e
         | Inr ks \<Rightarrow> (case select_mask msk scores of
                        Inl e \<Rightarrow> Inl e
                      | Inr ss \<Rightarrow> Inr (ks, ss)))"

subsection \<open>top\_k\_keypoints\<close>

text \<open>
  \<open>torch.topk\<close> returns the \<open>k\<close> largest scores in descending order with their indices, and
  raises when \<open>k\<close> is out of range; ties are broken here by position (a stable sort).
\<close>

definition top_k_keypoints ::
  "(int \<times> int) list \<Rightarrow> real list \<Rightarrow> int \<Rightarrow> error + ((int \<times> int) list \<times> real list)" where
  "top_k_keypoints keypoints scores k =
     (if k \<ge> int (length keypoints) then Inr (keypoints, scores)
      else if k < 0 \<or> k > int (length scores) then Inl RuntimeError
      else let indices = take (nat k) (sort_key (\<lambda>i. - (scores ! i)) [0..<length scores])
           in if \<not> list_all (\<lambda>i. i < length keypoints) indices then Inl IndexError
              else Inr (map (\<lambda>i. keypoints ! i) indices, map (\<lambda>i. scores ! i) indices))"

subsection \<open>Configuration and construction\<close>

record config =
  descriptor_dim :: int
  nms_radius :: int
  keypoint_threshold :: real
  max_keypoints :: int
  remove_borders_cfg :: int

text \<open>The dictionary passed to the constructor: any key may be absent.\<close>

record config_dict =
  descriptor_dim_opt :: "int option"
  nms_radius_opt :: "int option"
  keypoint_threshold_opt :: "real option"
  max_keypoints_opt :: "int option"
  remove_borders_opt :: "int option"

definition default_config :: config where
  "default_config =
     \<lparr>descriptor_dim = 256, nms_radius = 4, keypoint_threshold = 5 / 1000,
      max_keypoints = - 1, remove_borders_cfg = 4\<rparr>"

definition merge_config :: "config \<Rightarrow> config_dict \<Rightarrow> config" where
  \<comment> \<open>\<open>{**self.default_config, **config}\<close>\<close>
  "merge_config d c =
     \<lparr>descriptor_dim = (case descriptor_dim_opt c of None \<Rightarrow> descriptor_dim d | Some v \<Rightarrow> v),
      nms_radius = (case nms_radius_opt c of None \<Rightarrow> nms_radius d | Some v \<Rightarrow> v),
      keypoint_threshold =
        (case keypoint_threshold_opt c of None \<Rightarrow> keypoint_threshold d | Some v \<Rightarrow> v),
      max_keypoints = (case max_keypoints_opt c of None \<Rightarrow> max_keypoints d | Some v \<Rightarrow> v),
      remove_borders_cfg =
        (case remove_borders_opt c of None \<Rightarrow> remove_borders_cfg d | Some v \<Rightarrow> v)\<rparr>"

text \<open>
  The convolution layers and their pretrained weights are not interpreted. A loaded network
  is a pair of functions of the image: \<open>logits\<close> is lines 111--125 (the 65 class logits of
  every 8x8 cell, indexed cell row, cell column, class) and \<open>describe\<close> is lines 150--156
  (the descriptor head sampled at the final keypoints). \<open>load\<close> stands for building the
  layers for a descriptor dimension and \<open>load_state_dict(torch.load(...))\<close>, which may raise.
\<close>

record 'img network =
  logits :: "'img \<Rightarrow> real list list list"
  describe :: "'img \<Rightarrow> (real \<times> real) list \<Rightarrow> real list list"

record 'img SuperPoint =
  config :: config
  net :: "'img network"

definition SuperPoint_init ::
  "(int \<Rightarrow> error + 'img network) \<Rightarrow> config_dict \<Rightarrow> error + 'img SuperPoint" where
  "SuperPoint_init load c =
     (let cfg = merge_config default_config c
      in case load (descriptor_dim cfg) of
           Inl e \<Rightarrow> Inl e
         | Inr nw \<Rightarrow>
             (let mk = max_keypoints cfg
              in if mk = 0 \<or> mk < - 1 then Inl ValueError
                 else Inr \<lparr>config = cfg, net = nw\<rparr>))"

subsection \<open>SuperPoint.forward\<close>

text \<open>
  One image of the batch. Lines 126--129: softmax over the 65 classes of every cell, drop the
  last class, and spread the 64 remaining probabilities of cell \<open>(y, x)\<close> over the pixels
  \<open>(8y + a, 8x + c)\<close>, class \<open>8a + c\<close>; the reshape raises unless there are 65 classes.
  \<open>torch.nonzero\<close> lists the positions above the threshold in row-major order. The radius 4,
  the threshold 0.005, the border 4 and the count 1024 are literals of \<open>forward\<close>: it never
  reads \<open>self.config\<close>. The final flip turns (row, column) into \<open>(x, y)\<close>.
\<close>

definition softmax :: "real list \<Rightarrow> real list" where
  "softmax xs = map (\<lambda>x. exp x / sum_list (map exp xs)) xs"

definition score_map :: "real list list list \<Rightarrow> error + real list list" where
  "score_map lg =
     (if \<not> list_all (list_all (\<lambda>c. length c = 65)) lg then Inl RuntimeError
      else let h = length lg; w = width lg
           in Inr (tabulate2 (h * 8) (w * 8)
                     (\<lambda>i j. butlast (softmax (lg ! (i div 8) ! (j div 8)))
                              ! ((i mod 8) * 8 + j mod 8))))"

definition nonzero_gt :: "real \<Rightarrow> real list list \<Rightarrow> (int \<times> int) list" where
  "nonzero_gt t s =
     concat (map (\<lambda>i. map (\<lambda>j. (int i, int j)) (filter (\<lambda>j. s ! i ! j > t) [0..<length (s ! i)]))
                 [0..<length s])"

record detection =
  det_keypoints :: "(real \<times> real) list"
  det_scores :: "real list"
  det_descriptors :: "real list list"

definition SuperPoint_forward :: "'img SuperPoint \<Rightarrow> 'img \<Rightarrow> error + detection" where
  "SuperPoint_forward self img =
     (let lg = logits (net self) img;
          h = length lg; w = width lg
      in case score_map lg of
           Inl e \<Rightarrow> Inl e
         | Inr scores \<Rightarrow>
         (case simple_nms scores 4 of
           Inl e \<Rightarrow> Inl e
         | Inr scores \<Rightarrow>
         (let keypoints = nonzero_gt (5 / 1000) scores;
              scores = map (\<lambda>k. scores ! nat (fst k) ! nat (snd k)) keypoints
          in case remove_borders keypoints scores 4 (int (h * 8)) (int (w * 8)) of
               Inl e \<Rightarrow> Inl e
             | Inr (keypoints, scores) \<Rightarrow>
             (case top_k_keypoints keypoints scores 1024 of
               Inl e \<Rightarrow> Inl e
             | Inr (keypoints, scores) \<Rightarrow>
                 (let keypoints = map (\<lambda>k. (real_of_int (snd k), real_of_int (fst k))) keypoints
                  in Inr \<lparr>det_keypoints = keypoints, det_scores = scores,
                          det_descriptors = describe (net self) img keypoints\<rparr>)))))"

section \<open>superpoints2rank.py: the matcher\<close>

subsection \<open>Optimal transport in log space\<close>

definition logsumexp :: "real list \<Rightarrow> real" where
  "logsumexp xs = ln (sum_list (map exp xs))"

text \<open>
  One batch element: \<open>Z\<close> is the coupling matrix with its dustbin row and column, \<open>u\<close> has
  one entry per row and \<open>v\<close> one per column. \<open>Z + v.unsqueeze(1)\<close> adds \<open>v ! j\<close> to column
  \<open>j\<close> and the reduction over \<open>dim=2\<close> runs along each row; \<open>Z + u.unsqueeze(2)\<close> adds
  \<open>u ! i\<close> to row \<open>i\<close> and the reduction over \<open>dim=1\<close> runs along each column.
\<close>

definition sinkhorn_u :: "real list list \<Rightarrow> real list \<Rightarrow> real list \<Rightarrow> real list" where
  "sinkhorn_u Z log_mu v =
     map (\<lambda>i. log_mu ! i - logsumexp (map (\<lambda>j. Z ! i ! j + v ! j) [0..<width Z]))
         [0..<length Z]"

definition sinkhorn_v :: "real list list \<Rightarrow> real list \<Rightarrow> real list \<Rightarrow> real list" where
  "sinkhorn_v Z log_nu u =
     map (\<lambda>j. log_nu ! j - logsumexp (map (\<lambda>i. Z ! i ! j + u ! i) [0..<length Z]))
         [0..<width Z]"

fun sinkhorn_loop ::
  "nat \<Rightarrow> real list list \<Rightarrow> real list \<Rightarrow> real list \<Rightarrow> real list \<times> real list" where
  "sinkhorn_loop 0 Z log_mu log_nu =
     (replicate (length log_mu) 0, replicate (length log_nu) 0)"
| "sinkhorn_loop (Suc k) Z log_mu log_nu =
     (let (u, v) = sinkhorn_loop k Z log_mu log_nu;
          u = sinkhorn_u Z log_mu v;
          v = sinkhorn_v Z log_nu u
      in (u, v))"

definition log_sinkhorn_iterations ::
  "real list list \<Rightarrow> real list \<Rightarrow> real list \<Rightarrow> int \<Rightarrow> real list list" where
  \<comment> \<open>\<open>range(iters)\<close> is empty for \<open>iters \<le> 0\<close>\<close>
  "log_sinkhorn_iterations Z log_mu log_nu iters =
     (let (u, v) = sinkhorn_loop (nat iters) Z log_mu log_nu
      in tabulate2 (length Z) (width Z) (\<lambda>i j. Z ! i ! j + u ! i + v ! j))"

definition log_optimal_transport :: "real list list \<Rightarrow> real \<Rightarrow> int \<Rightarrow> real list list" where
  "log_optimal_transport scores alpha iters =
     (let m = length scores; n = width scores;
          ms = real m; ns = real n;
          bins0 = [alpha];
          bins1 = replicate n alpha;
          couplings = map (\<lambda>row. row @ bins0) scores @ [bins1 @ [alpha]];
          nrm = - ln (ms + ns);
          log_mu = replicate m nrm @ [ln ns + nrm];
          log_nu = replicate n nrm @ [ln ms + nrm];
          Z = log_sinkhorn_iterations couplings log_mu log_nu iters
      in tabulate2 (length Z) (width Z) (\<lambda>i j. Z ! i ! j - nrm))"

subsection \<open>SuperGlue.forward\<close>

text \<open>
  \<open>torch.max\<close> along a dimension returns the maximum and the index of its first occurrence.
  It is only applied to non-empty rows and columns: \<open>forward\<close> has returned already when a
  side has no keypoints.
\<close>

definition argmax :: "real list \<Rightarrow> nat" where
  "argmax xs = length (takeWhile (\<lambda>x. x \<noteq> Max (set xs)) xs)"

record data =
  keypoints0 :: "(real \<times> real) list"
  keypoints1 :: "(real \<times> real) list"
  scores0 :: "real list"
  scores1 :: "real list"
  descriptors0 :: "real list list"
  descriptors1 :: "real list list"

text \<open>
  The keypoint encoder, the attentional graph network and the final projection depend on
  pretrained weights and are not interpreted: \<open>similarity\<close> is lines 176--192, from the input
  to the matrix of scaled descriptor products (one row per keypoint of image 0, one column
  per keypoint of image 1), and it may raise. \<open>bin_score\<close> is the learned dustbin parameter.
\<close>

record SuperGlue =
  sinkhorn_iterations :: int
  match_threshold :: real
  bin_score :: real
  similarity :: "data \<Rightarrow> error + real list list"

record prediction =
  matches0 :: "int list"
  matches1 :: "int list"
  matching_scores0 :: "real list"
  matching_scores1 :: "real list"

definition assignment :: "real \<Rightarrow> int \<Rightarrow> real \<Rightarrow> real list list \<Rightarrow> prediction" where
  \<comment> \<open>lines 194--217\<close>
  "assignment alpha iters threshold scores =
     (let scores = log_optimal_transport scores alpha iters;
          inner = map butlast (butlast scores);
          m = length inner; n = width inner;
          columns = map (\<lambda>j. map (\<lambda>row. row ! j) inner) [0..<n];
          max0_values = map (\<lambda>row. Max (set row)) inner;
          indices0 = map argmax inner;
          indices1 = map argmax columns;
          mutual0 = map (\<lambda>i. i = indices1 ! (indices0 ! i)) [0..<m];
          mutual1 = map (\<lambda>j. j = indices0 ! (indices1 ! j)) [0..<n];
          mscores0 = map (\<lambda>i. if mutual0 ! i then exp (max0_values ! i) else 0) [0..<m];
          mscores1 = map (\<lambda>j. if mutual1 ! j then mscores0 ! (indices1 ! j) else 0) [0..<n];
          valid0 = map (\<lambda>i. mutual0 ! i \<and> mscores0 ! i > threshold) [0..<m];
          valid1 = map (\<lambda>j. mutual1 ! j \<and> valid0 ! (indices1 ! j)) [0..<n];
          indices0 = map (\<lambda>i. if valid0 ! i then int (indices0 ! i) else - 1) [0..<m];
          indices1 = map (\<lambda>j. if valid1 ! j then int (indices1 ! j) else - 1) [0..<n]
      in \<lparr>matches0 = indices0, matches1 = indices1,
          matching_scores0 = mscores0, matching_scores1 = mscores1\<rparr>)"

definition SuperGlue_forward :: "SuperGlue \<Rightarrow> data \<Rightarrow> error + prediction" where
  "SuperGlue_forward sg d =
     (let kpts0 = keypoints0 d; kpts1 = keypoints1 d
      in if length kpts0 = 0 \<or> length kpts1 = 0
         then Inr \<lparr>matches0 = replicate (length kpts0) (- 1),
                   matches1 = replicate (length kpts1) (- 1),
                   matching_scores0 = replicate (length kpts0) 0,
                   matching_scores1 = replicate (length kpts1) 0\<rparr>
         else case similarity sg d of
                Inl e \<Rightarrow> Inl e
              | Inr scores \<Rightarrow>
                  Inr (assignment (bin_score sg) (sinkhorn_iterations sg) (match_threshold sg)
                         scores))"

subsection \<open>ranking\_score\<close>

text \<open>
  \<open>np.multiply\<close> is elementwise and broadcasts an array of length 1; other length
  mismatches raise. The integer match indices are converted to floats by the product.
\<close>

definition ranking_score :: "int list \<Rightarrow> real list \<Rightarrow> error + real" where
  "ranking_score matches match_confidence =
     (if length matches = length match_confidence
      then Inr (sum_list (map2 (\<lambda>m c. real_of_int m * c) matches match_confidence))
      else if length matches = 1
      then Inr (sum_list (map (\<lambda>c. real_of_int (hd matches) * c) match_confidence))
      else if length match_confidence = 1
      then Inr (sum_list (map (\<lambda>m. real_of_int m * hd match_confidence) matches))
      else Inl ValueError)"

text \<open>
  The score as the specification words it: the sum of the confidences of the valid matches.
\<close>

definition valid_confidence_sum :: "int list \<Rightarrow> real list \<Rightarrow> real" where
  "valid_confidence_sum matches match_confidence =
     sum_list (map2 (\<lambda>m c. if m \<noteq> - 1 then c else 0) matches match_confidence)"

section \<open>Auxiliary definitions\<close>

text \<open>
  Names for intermediate values of \<open>log_optimal_transport\<close> and \<open>assignment\<close>, used in the
  proofs only: the coupling matrix, the target marginals, the potentials \<open>(u, v)\<close> after the
  loop, the transport scores without the dustbins, and the best column of every row and best
  row of every column.
\<close>

definition couplings_of :: "real list list \<Rightarrow> real \<Rightarrow> real list list" where
  "couplings_of scores alpha =
     map (\<lambda>row. row @ [alpha]) scores @ [replicate (width scores) alpha @ [alpha]]"

definition log_mu_of :: "nat \<Rightarrow> nat \<Rightarrow> real list" where
  "log_mu_of m n = replicate m (- ln (real m + real n)) @ [ln (real n) + - ln (real m + real n)]"

definition log_nu_of :: "nat \<Rightarrow> nat \<Rightarrow> real list" where
  "log_nu_of m n = replicate n (- ln (real m + real n)) @ [ln (real m) + - ln (real m + real n)]"

definition potentials :: "real list list \<Rightarrow> real \<Rightarrow> int \<Rightarrow> real list \<times> real list" where
  "potentials scores alpha iters =
     sinkhorn_loop (nat iters) (couplings_of scores alpha)
       (log_mu_of (length scores) (width scores)) (log_nu_of (length scores) (width scores))"

definition ot_inner :: "real \<Rightarrow> int \<Rightarrow> real list list \<Rightarrow> real list list" where
  "ot_inner alpha iters scores = map butlast (butlast (log_optimal_transport scores alpha iters))"

definition best0 :: "real \<Rightarrow> int \<Rightarrow> real list list \<Rightarrow> nat list" where
  "best0 alpha iters scores = map argmax (ot_inner alpha iters scores)"

definition best1 :: "real \<Rightarrow> int \<Rightarrow> real list list \<Rightarrow> nat list" where
  "best1 alpha iters scores =
     map argmax (map (\<lambda>j. map (\<lambda>row. row ! j) (ot_inner alpha iters scores))
                     [0..<width (ot_inner alpha iters scores)])"

definition conf0 :: "real \<Rightarrow> int \<Rightarrow> real list list \<Rightarrow> nat \<Rightarrow> real" where
  "conf0 alpha iters scores i =
     (if i = best1 alpha iters scores ! (best0 alpha iters scores ! i)
      then exp (Max (set (ot_inner alpha iters scores ! i))) else 0)"

text \<open>
  For the suppression: the window relation, the support of the suppression mask, the score map
  after suppression, the final mask of \<open>simple_nms\<close>, and the invariant that two selected
  cells in one window have equal scores. \<open>keypoint_count\<close> reads the number of keypoints of a
  detection.
\<close>

definition near :: "nat \<Rightarrow> nat \<Rightarrow> nat \<Rightarrow> nat \<Rightarrow> nat \<Rightarrow> bool" where
  "near r i j i' j' = (i' \<le> i + r \<and> i \<le> i' + r \<and> j' \<le> j + r \<and> j \<le> j' + r)"

definition suppressed :: "nat \<Rightarrow> nat \<Rightarrow> nat \<Rightarrow> bool list list \<Rightarrow> nat \<Rightarrow> nat \<Rightarrow> bool" where
  "suppressed r H W M i j = (\<exists>i'<H. \<exists>j'<W. near r i j i' j' \<and> M ! i' ! j')"

definition compatible :: "nat \<Rightarrow> nat \<Rightarrow> nat \<Rightarrow> real list list \<Rightarrow> bool list list \<Rightarrow> bool" where
  "compatible r H W s M =
     (\<forall>i<H. \<forall>j<W. \<forall>i'<H. \<forall>j'<W.
        M ! i ! j \<and> M ! i' ! j' \<and> near r i j i' j' \<longrightarrow> s ! i' ! j' \<le> s ! i ! j)"

definition supp_score ::
  "nat \<Rightarrow> nat \<Rightarrow> nat \<Rightarrow> real list list \<Rightarrow> bool list list \<Rightarrow> nat \<Rightarrow> nat \<Rightarrow> real" where
  "supp_score r H W s M i j = (if suppressed r H W M i j then 0 else s ! i ! j)"

definition nms_mask :: "nat \<Rightarrow> real list list \<Rightarrow> bool list list" where
  "nms_mask r s = nms_loop 2 r s (eq2 s (max_pool r s))"

definition keypoint_count :: "error + detection \<Rightarrow> error + nat" where
  "keypoint_count r = (case r of Inl e \<Rightarrow> Inl e | Inr out \<Rightarrow> Inr (length (det_keypoints out)))"

section \<open>Example inputs\<close>

text \<open>
  Concrete pairs and matchers at which the theorems below are instantiated. A matcher is given
  by its configuration, its dustbin parameter and the similarity matrix its network computes.
\<close>

definition one_keypoint_pair :: data where
  "one_keypoint_pair =
     \<lparr>keypoints0 = [(320, 240)], keypoints1 = [(321, 239)], scores0 = [1 / 2], scores1 = [1 / 2],
      descriptors0 = [[1]], descriptors1 = [[1]]\<rparr>"

definition glue_weak_match :: SuperGlue where
  "glue_weak_match =
     \<lparr>sinkhorn_iterations = 1, match_threshold = 2 / 10, bin_score = 1,
      similarity = (\<lambda>d. Inr [[- 9]])\<rparr>"

definition glue_strong_match :: SuperGlue where
  "glue_strong_match =
     \<lparr>sinkhorn_iterations = 1, match_threshold = 2 / 10, bin_score = 1,
      similarity = (\<lambda>d. Inr [[1]])\<rparr>"

definition empty_pair :: data where
  "empty_pair =
     \<lparr>keypoints0 = [], keypoints1 = [(1, 2), (3, 4), (5, 6)], scores0 = [],
      scores1 = [1 / 2, 1 / 3, 1 / 4], descriptors0 = [], descriptors1 = [[1], [1], [1]]\<rparr>"

definition glue_raising :: SuperGlue where
  "glue_raising =
     \<lparr>sinkhorn_iterations = 20, match_threshold = 2 / 10, bin_score = 1,
      similarity = (\<lambda>d. Inl RuntimeError)\<rparr>"

definition two_keypoint_pair :: data where
  "two_keypoint_pair =
     \<lparr>keypoints0 = [(10, 20), (300, 200)], keypoints1 = [(12, 21), (305, 198)],
      scores0 = [1 / 2, 1 / 3], scores1 = [1 / 2, 1 / 4],
      descriptors0 = [[1, 0], [0, 1]], descriptors1 = [[1, 0], [0, 1]]\<rparr>"

definition glue_ranking :: SuperGlue where
  "glue_ranking =
     \<lparr>sinkhorn_iterations = 20, match_threshold = 2 / 10, bin_score = 1,
      similarity = (\<lambda>d. Inr [[2, 0], [0, 2]])\<rparr>"

definition flat_network :: "unit network" where
  "flat_network =
     \<lparr>logits = (\<lambda>u. replicate 2 (replicate 2 (replicate 65 0))),
      describe = (\<lambda>u ks. map (\<lambda>k. [1]) ks)\<rparr>"

definition flat_load :: "int \<Rightarrow> error + unit network" where
  "flat_load d = Inr flat_network"

definition default_dict :: config_dict where
  "default_dict =
     \<lparr>descriptor_dim_opt = None, nms_radius_opt = None, keypoint_threshold_opt = None,
      max_keypoints_opt = None, remove_borders_opt = None\<rparr>"

definition one_keypoint_dict :: config_dict where
  "one_keypoint_dict =
     \<lparr>descriptor_dim_opt = None, nms_radius_opt = Some 0, keypoint_threshold_opt = Some (1 / 2),
      max_keypoints_opt = Some 1, remove_borders_opt = Some 0\<rparr>"

section \<open>Basic facts about tensors\<close>

lemma takeWhile_first:
  "\<exists>x\<in>set xs. \<not> P x \<Longrightarrow>
   length (takeWhile P xs) < length xs \<and> \<not> P (xs ! length (takeWhile P xs))"
  by (induction xs) auto

lemma argmax_less: "xs \<noteq> [] \<Longrightarrow> argmax xs < length xs"
  unfolding argmax_def
  using takeWhile_first [of xs "\<lambda>x. x \<noteq> Max (set xs)"] Max_in [of "set xs"] by auto

lemma argmax_max: "xs \<noteq> [] \<Longrightarrow> xs ! argmax xs = Max (set xs)"
  unfolding argmax_def
  using takeWhile_first [of xs "\<lambda>x. x \<noteq> Max (set xs)"] Max_in [of "set xs"] by auto

lemma length_tabulate2 [simp]: "length (tabulate2 H W f) = H"
  by (simp add: tabulate2_def)

lemma width_tabulate2 [simp]: "0 < H \<Longrightarrow> width (tabulate2 H W f) = W"
  by (cases H) (simp_all add: tabulate2_def width_def upt_conv_Cons del: upt_Suc)

lemma nth_tabulate2 [simp]: "i < H \<Longrightarrow> j < W \<Longrightarrow> tabulate2 H W f ! i ! j = f i j"
  by (simp add: tabulate2_def)

lemma length_nth_tabulate2 [simp]: "i < H \<Longrightarrow> length (tabulate2 H W f ! i) = W"
  by (simp add: tabulate2_def)

lemma shaped_tabulate2 [simp]: "shaped H W (tabulate2 H W f)"
  by (simp add: shaped_def tabulate2_def list_all_iff)

lemma shaped_width: "shaped H W x \<Longrightarrow> 0 < H \<Longrightarrow> width x = W"
  by (cases x) (auto simp: shaped_def width_def)

lemma shaped_nth: "shaped H W x \<Longrightarrow> i < H \<Longrightarrow> length (x ! i) = W"
  by (auto simp: shaped_def list_all_iff)

lemma shaped_length: "shaped H W x \<Longrightarrow> length x = H"
  by (simp add: shaped_def)

section \<open>Properties of the matcher\<close>

lemma lot_shape:
  assumes "shaped m n S" "0 < m"
  shows "shaped (Suc m) (Suc n) (log_optimal_transport S a it)"
proof -
  have "width (map (\<lambda>row. row @ [a]) S @ [replicate n a @ [a]]) = Suc n"
    using assms by (cases S) (auto simp: width_def shaped_def)
  moreover have "width S = n" "length S = m"
    using assms by (simp_all add: shaped_width shaped_length)
  ultimately show ?thesis
    by (simp add: log_optimal_transport_def log_sinkhorn_iterations_def Let_def
        split: prod.splits)
qed

lemma ot_inner_shape:
  assumes "shaped m n S" "0 < m"
  shows "shaped m n (ot_inner a it S)"
proof -
  have s: "shaped (Suc m) (Suc n) (log_optimal_transport S a it)"
    by (rule lot_shape [OF assms])
  then show ?thesis
    by (auto simp: ot_inner_def shaped_def list_all_iff dest!: in_set_butlastD)
qed

lemma ot_inner_nth:
  assumes "shaped m n S" "0 < m" "i < m" "j < n"
  shows "ot_inner a it S ! i ! j = log_optimal_transport S a it ! i ! j"
proof -
  have s: "shaped (Suc m) (Suc n) (log_optimal_transport S a it)"
    by (rule lot_shape [OF assms(1,2)])
  then have "length (log_optimal_transport S a it) = Suc m"
    and "length (log_optimal_transport S a it ! i) = Suc n"
    using assms by (simp_all add: shaped_length shaped_nth)
  then show ?thesis
    using assms by (simp add: ot_inner_def nth_butlast)
qed

lemma best0_props:
  assumes "shaped m n S" "0 < m" "0 < n"
  shows "length (best0 a it S) = m" and "i < m \<Longrightarrow> best0 a it S ! i < n"
proof -
  note sh = ot_inner_shape [OF assms(1,2), of a it]
  show "length (best0 a it S) = m"
    using sh by (simp add: best0_def shaped_length)
  assume "i < m"
  then have len: "length (ot_inner a it S ! i) = n"
    using sh by (simp add: shaped_nth)
  with assms have "ot_inner a it S ! i \<noteq> []" by auto
  from argmax_less [OF this] len \<open>i < m\<close> sh show "best0 a it S ! i < n"
    by (simp add: best0_def shaped_length)
qed

lemma best1_props:
  assumes "shaped m n S" "0 < m" "0 < n"
  shows "length (best1 a it S) = n" and "j < n \<Longrightarrow> best1 a it S ! j < m"
proof -
  note sh = ot_inner_shape [OF assms(1,2), of a it]
  have w: "width (ot_inner a it S) = n" and l: "length (ot_inner a it S) = m"
    using sh assms by (simp_all add: shaped_width shaped_length)
  show "length (best1 a it S) = n"
    by (simp add: best1_def w)
  assume "j < n"
  have "map (\<lambda>row. row ! j) (ot_inner a it S) \<noteq> []"
    using l assms by auto
  from argmax_less [OF this] \<open>j < n\<close> show "best1 a it S ! j < m"
    by (simp add: best1_def w l)
qed

lemma assignment_alt:
  assumes "shaped m n S" "0 < m" "0 < n"
  shows "assignment a it thr S =
    \<lparr>matches0 = map (\<lambda>i. if i = best1 a it S ! (best0 a it S ! i) \<and> conf0 a it S i > thr
                          then int (best0 a it S ! i) else - 1) [0..<m],
     matches1 = map (\<lambda>j. if j = best0 a it S ! (best1 a it S ! j)
                            \<and> conf0 a it S (best1 a it S ! j) > thr
                          then int (best1 a it S ! j) else - 1) [0..<n],
     matching_scores0 = map (conf0 a it S) [0..<m],
     matching_scores1 = map (\<lambda>j. if j = best0 a it S ! (best1 a it S ! j)
                                   then conf0 a it S (best1 a it S ! j) else 0) [0..<n]\<rparr>"
proof -
  note sh = ot_inner_shape [OF assms(1,2), of a it]
  have w: "width (ot_inner a it S) = n" and l: "length (ot_inner a it S) = m"
    using sh assms by (simp_all add: shaped_width shaped_length)
  have b1: "\<And>j. j < n \<Longrightarrow> best1 a it S ! j < m"
    by (rule best1_props(2) [OF assms])
  have b0: "\<And>i. i < m \<Longrightarrow> best0 a it S ! i < n"
    by (rule best0_props(2) [OF assms])
  have lb0: "length (best0 a it S) = m" and lb1: "length (best1 a it S) = n"
    by (rule best0_props(1) [OF assms], rule best1_props(1) [OF assms])
  have a0: "\<And>i. i < m \<Longrightarrow> argmax (ot_inner a it S ! i) < n"
    using b0 l by (simp add: best0_def)
  have a1: "\<And>j. j < n \<Longrightarrow> argmax (map (\<lambda>row. row ! j) (ot_inner a it S)) < m"
    using b1 by (simp add: best1_def w)
  show ?thesis
    unfolding assignment_def Let_def ot_inner_def [symmetric] w l conf0_def best0_def best1_def
    using a0 a1 l
    by (simp cong: map_cong del: upt_Suc)
qed

lemma couplings_shape:
  assumes "shaped m n S" "0 < m"
  shows "length (couplings_of S a) = Suc m" "width (couplings_of S a) = Suc n"
proof -
  show "length (couplings_of S a) = Suc m"
    using assms by (simp add: couplings_of_def shaped_length)
  show "width (couplings_of S a) = Suc n"
    using assms by (cases S) (auto simp: couplings_of_def width_def shaped_def)
qed

lemma lot_nth:
  assumes "shaped m n S" "0 < m" "i < Suc m" "j < Suc n"
  shows "log_optimal_transport S a it ! i ! j =
           couplings_of S a ! i ! j + fst (potentials S a it) ! i + snd (potentials S a it) ! j
             + ln (real m + real n)"
proof -
  have w: "width S = n" and l: "length S = m"
    using assms by (simp_all add: shaped_width shaped_length)
  note cs = couplings_shape [OF assms(1,2), of a]
  have cw: "width (map (\<lambda>row. row @ [a]) S @ [replicate n a @ [a]]) = Suc n"
    using cs(2) by (simp add: couplings_of_def w)
  have "log_optimal_transport S a it =
          tabulate2 (Suc m) (Suc n)
            (\<lambda>i j. tabulate2 (Suc m) (Suc n)
                     (\<lambda>i j. couplings_of S a ! i ! j + fst (potentials S a it) ! i
                              + snd (potentials S a it) ! j) ! i ! j
                   - - ln (real m + real n))"
    by (simp add: log_optimal_transport_def log_sinkhorn_iterations_def Let_def potentials_def
      couplings_of_def log_mu_of_def log_nu_of_def w l cw split_beta)
  then show ?thesis
    using assms(3,4) by simp
qed

lemma sinkhorn_loop_Suc_snd:
  assumes "j < width Z"
  shows "snd (sinkhorn_loop (Suc k) Z mu nu) ! j =
           nu ! j - logsumexp (map (\<lambda>i. Z ! i ! j + fst (sinkhorn_loop (Suc k) Z mu nu) ! i)
                                   [0..<length Z])"
  using assms by (simp add: Let_def sinkhorn_v_def split: prod.splits del: upt_Suc)

lemma sum_list_exp_nonneg: "0 \<le> sum_list (map exp (xs :: real list))"
  by (rule sum_list_nonneg) auto

lemma sum_list_exp_pos: "xs \<noteq> [] \<Longrightarrow> 0 < sum_list (map exp (xs :: real list))"
proof (cases xs)
  case Nil
  assume "xs \<noteq> []"
  with Nil show ?thesis by simp
next
  case (Cons x ys)
  have "0 < exp x + sum_list (map exp ys)"
    using exp_gt_zero [of x] sum_list_exp_nonneg [of ys] by linarith
  with Cons show ?thesis by simp
qed

lemma exp_le_sum_list:
  "i < length xs \<Longrightarrow> exp (xs ! i) \<le> sum_list (map exp (xs :: real list))"
proof (induction xs arbitrary: i)
  case Nil
  then show ?case by simp
next
  case (Cons x xs)
  show ?case
  proof (cases i)
    case 0
    have "exp x \<le> exp x + sum_list (map exp xs)"
      using sum_list_exp_nonneg [of xs] by linarith
    with 0 show ?thesis by simp
  next
    case (Suc k)
    then have "exp (xs ! k) \<le> sum_list (map exp xs)"
      using Cons by simp
    then have "exp (xs ! k) \<le> exp x + sum_list (map exp xs)"
      using exp_gt_zero [of x] by linarith
    with Suc show ?thesis by simp
  qed
qed

lemma sub_logsumexp_le:
  assumes "i < length xs"
  shows "xs ! i - logsumexp xs \<le> 0"
proof -
  have "xs \<noteq> []" using assms by auto
  then have "ln (exp (xs ! i)) \<le> ln (sum_list (map exp xs))"
    using exp_le_sum_list [OF assms] sum_list_exp_pos [of xs]
    by (subst ln_le_cancel_iff) auto
  then show ?thesis by (simp add: logsumexp_def)
qed

lemma lot_le_0:
  assumes "shaped m n S" "0 < m" "i < Suc m" "j < n" "1 \<le> it"
  shows "log_optimal_transport S a it ! i ! j \<le> 0"
proof -
  note cs = couplings_shape [OF assms(1,2), of a]
  have w: "width S = n" and l: "length S = m"
    using assms by (simp_all add: shaped_width shaped_length)
  obtain k where k: "nat it = Suc k"
    using assms(5) by (cases "nat it") auto
  let ?C = "couplings_of S a"
  let ?U = "fst (potentials S a it)"
  let ?xs = "map (\<lambda>i. ?C ! i ! j + ?U ! i) [0..<Suc m]"
  have v: "snd (potentials S a it) ! j = - ln (real m + real n) - logsumexp ?xs"
    using sinkhorn_loop_Suc_snd [of j ?C k "log_mu_of m n" "log_nu_of m n"] assms(4) cs
    by (simp add: potentials_def k w l log_nu_of_def nth_append del: sinkhorn_loop.simps upt_Suc)
  have "log_optimal_transport S a it ! i ! j = ?xs ! i - logsumexp ?xs"
    using lot_nth [OF assms(1,2,3), of j a it] assms(3,4) v
    by (simp del: upt_Suc)
  moreover have "?xs ! i - logsumexp ?xs \<le> 0"
    by (rule sub_logsumexp_le) (use assms(3) in simp)
  ultimately show ?thesis by simp
qed

lemma forward_nonempty:
  assumes "keypoints0 d \<noteq> []" "keypoints1 d \<noteq> []" "similarity sg d = Inr S"
  shows "SuperGlue_forward sg d =
           Inr (assignment (bin_score sg) (sinkhorn_iterations sg) (match_threshold sg) S)"
  using assms by (simp add: SuperGlue_forward_def)

lemma upt2: "[0..<Suc (Suc 0)] = [0, Suc 0]" by (simp add: upt_conv_Cons)

lemma lot_1x1_one_iteration:
  "exp (log_optimal_transport [[s]] a 1 ! 0 ! 0) =
     (exp s / (2 * (exp s + exp a))) / (exp s / (2 * (exp s + exp a)) + 1 / 4)"
proof -
  have sh: "shaped 1 1 [[s]]" by (simp add: shaped_def)
  let ?C = "couplings_of [[s]] a"
  have C: "?C = [[s, a], [a, a]]" by (simp add: couplings_of_def width_def)
  have mu: "log_mu_of (Suc 0) (Suc 0) = [- ln 2, - ln 2]"
    and nu: "log_nu_of (Suc 0) (Suc 0) = [- ln 2, - ln 2]"
    by (simp_all add: log_mu_of_def log_nu_of_def)
  have pa: "0 < exp s + exp a" using exp_gt_zero [of s] exp_gt_zero [of a] by linarith
  have U: "fst (potentials [[s]] a 1) = [- ln 2 - ln (exp s + exp a), - ln 2 - ln (2 * exp a)]"
    by (simp add: potentials_def C mu nu width_def Let_def sinkhorn_u_def logsumexp_def upt2
        split_beta del: upt_Suc)
  have V: "snd (potentials [[s]] a 1) ! 0 =
             - ln 2 - ln (exp (s + (- ln 2 - ln (exp s + exp a)))
                          + exp (a + (- ln 2 - ln (2 * exp a))))"
    using U
    by (simp add: potentials_def C mu nu width_def Let_def sinkhorn_v_def logsumexp_def upt2
        split_beta del: upt_Suc)
  have x0: "exp (s + (- ln 2 - ln (exp s + exp a))) = exp s / (2 * (exp s + exp a))"
    using pa by (simp add: exp_add exp_diff exp_minus field_simps)
  have x1: "exp (a + (- ln 2 - ln (2 * exp a))) = 1 / 4"
    using exp_gt_zero [of a] by (simp add: exp_add exp_diff exp_minus field_simps)
  have px: "0 < exp s / (2 * (exp s + exp a))" using pa by simp
  have "log_optimal_transport [[s]] a 1 ! 0 ! 0 =
          (s + (- ln 2 - ln (exp s + exp a)))
            - ln (exp s / (2 * (exp s + exp a)) + 1 / 4)"
    using lot_nth [OF sh, of 0 0 a 1] by (simp add: C U V x0 x1)
  then show ?thesis
    using px by (simp add: exp_diff x0)
qed

lemma frac_small:
  fixes p q :: real
  assumes "0 < p" "0 < q" "7 * p \<le> q"
  shows "p / (2 * (p + q)) \<le> 1 / 16"
proof -
  have "0 < 2 * (p + q)" using assms by simp
  then have "(p / (2 * (p + q)) \<le> 1 / 16) = (p \<le> 1 / 16 * (2 * (p + q)))"
    by (rule pos_divide_le_eq)
  then show ?thesis using assms by simp
qed

lemma ratio_small:
  fixes x :: real
  assumes "0 < x" "x \<le> 1 / 16"
  shows "x / (x + 1 / 4) \<le> 1 / 5"
proof -
  have "0 < x + 1 / 4" using assms by simp
  then have "(x / (x + 1 / 4) \<le> 1 / 5) = (x \<le> 1 / 5 * (x + 1 / 4))"
    by (rule pos_divide_le_eq)
  then show ?thesis using assms by simp
qed

lemma dustbin_ratio_small:
  fixes p q :: real
  assumes "0 < p" "0 < q" "7 * p \<le> q"
  shows "(p / (2 * (p + q))) / (p / (2 * (p + q)) + 1 / 4) \<le> 1 / 5"
proof -
  have "0 < 2 * (p + q)" using assms by simp
  then have "0 < p / (2 * (p + q))" using assms(1) by (rule divide_pos_pos [rotated])
  then show ?thesis
    by (rule ratio_small) (rule frac_small [OF assms])
qed

lemma exp_10_ge_7: "7 \<le> exp (10 :: real)"
  using exp_ge_add_one_self [of "10 :: real"] by simp

lemma cex_confidence_small: "exp (log_optimal_transport [[- 9]] 1 1 ! 0 ! 0) \<le> 1 / 5"
proof -
  let ?p = "exp (- 9 :: real)" and ?q = "exp (1 :: real)"
  have "exp (10 :: real) * ?p = ?q"
    by (simp add: exp_add [symmetric])
  moreover have "7 * ?p \<le> exp (10 :: real) * ?p"
    by (rule mult_right_mono [OF exp_10_ge_7]) simp
  ultimately have "7 * ?p \<le> ?q" by simp
  then have "(?p / (2 * (?p + ?q))) / (?p / (2 * (?p + ?q)) + 1 / 4) \<le> 1 / 5"
    by (intro dustbin_ratio_small exp_gt_zero)
  then show ?thesis
    by (simp only: lot_1x1_one_iteration)
qed

lemma singleton_row: "length xs = Suc 0 \<Longrightarrow> xs = [xs ! 0]"
  by (cases xs) auto

lemma assignment_1x1:
  "assignment a it thr [[s]] =
     \<lparr>matches0 = [if thr < exp (log_optimal_transport [[s]] a it ! 0 ! 0) then 0 else - 1],
      matches1 = [if thr < exp (log_optimal_transport [[s]] a it ! 0 ! 0) then 0 else - 1],
      matching_scores0 = [exp (log_optimal_transport [[s]] a it ! 0 ! 0)],
      matching_scores1 = [exp (log_optimal_transport [[s]] a it ! 0 ! 0)]\<rparr>"
proof -
  have sh: "shaped (Suc 0) (Suc 0) [[s]]" by (simp add: shaped_def)
  have b0: "best0 a it [[s]] ! 0 = 0"
    using best0_props(2) [OF sh, of 0 a it] by simp
  have b1: "best1 a it [[s]] ! 0 = 0"
    using best1_props(2) [OF sh, of 0 a it] by simp
  have "length (ot_inner a it [[s]] ! 0) = Suc 0"
    using ot_inner_shape [OF sh, of a it] by (simp add: shaped_nth)
  then have "ot_inner a it [[s]] ! 0 = [ot_inner a it [[s]] ! 0 ! 0]"
    by (rule singleton_row)
  then have "Max (set (ot_inner a it [[s]] ! 0)) = ot_inner a it [[s]] ! 0 ! 0"
    by (metis Max_singleton list.simps(15) empty_set)
  then have c: "conf0 a it [[s]] 0 = exp (log_optimal_transport [[s]] a it ! 0 ! 0)"
    using ot_inner_nth [OF sh, of 0 0 a it] by (simp add: conf0_def b0 b1)
  show ?thesis
    using assignment_alt [OF sh, of a it thr] by (simp add: b0 b1 c)
qed

lemma conf0_nonneg: "0 \<le> conf0 a it S i"
  by (simp add: conf0_def)

lemma conf0_zero_or_pos: "conf0 a it S i = 0 \<or> 0 < conf0 a it S i"
  by (simp add: conf0_def)

lemma conf0_le_1:
  assumes "shaped m n S" "0 < m" "0 < n" "i < m" "1 \<le> it"
  shows "conf0 a it S i \<le> 1"
proof -
  have len: "length (ot_inner a it S ! i) = n"
    using ot_inner_shape [OF assms(1,2), of a it] assms(4) by (simp add: shaped_nth)
  then have ne: "set (ot_inner a it S ! i) \<noteq> {}" using assms(3) by auto
  have "Max (set (ot_inner a it S ! i)) \<in> set (ot_inner a it S ! i)"
    by (rule Max_in [OF _ ne]) simp
  then obtain j where j: "j < n" and e: "Max (set (ot_inner a it S ! i)) = ot_inner a it S ! i ! j"
    using len by (auto simp: in_set_conv_nth)
  have "ot_inner a it S ! i ! j \<le> 0"
    using ot_inner_nth [OF assms(1,2,4) j, of a it] lot_le_0 [OF assms(1,2) _ j assms(5), of i a]
      assms(4) by simp
  then show ?thesis by (simp add: conf0_def e)
qed

lemma strong_confidence: "exp (log_optimal_transport [[1]] 1 1 ! 0 ! 0) = 1 / 2"
proof -
  have "0 < exp (1 :: real)" by simp
  then have "0 < 4 * exp (1 :: real)" by simp
  have "exp (1 :: real) / (2 * (exp 1 + exp 1)) = 1 / 4"
    using \<open>0 < exp (1 :: real)\<close> by (simp add: field_simps)
  then show ?thesis by (simp only: lot_1x1_one_iteration) simp
qed

text \<open>
  C1. The claim says the ranking score is the sum of the confidences of the valid matches.
  \<open>ranking_score\<close> multiplies every confidence by the match index itself, not by its
  validity: a valid match to keypoint 0 counts nothing and a match to keypoint \<open>j\<close> counts
  \<open>j\<close> times. Matching one keypoint against one keypoint gives the match \<open>[0]\<close> with
  confidence \<open>[1/2]\<close>, whose score is 0 and not 1/2; for matches \<open>[0, 1, -1]\<close> with confidences
  \<open>[0.9, 0.8, 0]\<close> the score is 0.8 and not 1.7.
\<close>

theorem ranking_score_weights_by_index:
  "SuperGlue_forward glue_strong_match one_keypoint_pair
     = Inr \<lparr>matches0 = [0], matches1 = [0],
            matching_scores0 = [1 / 2], matching_scores1 = [1 / 2]\<rparr>
   \<and> ranking_score [0] [1 / 2] = Inr 0
   \<and> valid_confidence_sum [0] [1 / 2] = 1 / 2
   \<and> ranking_score [0, 1, - 1] [9 / 10, 8 / 10, 0] = Inr (8 / 10)
   \<and> valid_confidence_sum [0, 1, - 1] [9 / 10, 8 / 10, 0] = 17 / 10"
  by (simp add: SuperGlue_forward_def glue_strong_match_def one_keypoint_pair_def
      assignment_1x1 strong_confidence ranking_score_def valid_confidence_sum_def)

text \<open>
  C2, as stated, fails: a keypoint whose mutual best match has a score that does not exceed
  the threshold gets the sentinel \<open>-1\<close> and keeps its positive confidence. One keypoint on each
  side with similarity \<open>-9\<close>, dustbin score 1, one Sinkhorn iteration and the default threshold
  0.2 is such a pair.
\<close>

theorem invalid_match_positive_confidence_counterexample:
  "SuperGlue_forward glue_weak_match one_keypoint_pair
     = Inr (assignment 1 1 (2 / 10) [[- 9]])
   \<and> matches0 (assignment 1 1 (2 / 10) [[- 9]]) ! 0 = - 1
   \<and> matching_scores0 (assignment 1 1 (2 / 10) [[- 9]]) ! 0 \<noteq> 0
   \<and> matches1 (assignment 1 1 (2 / 10) [[- 9]]) ! 0 = - 1
   \<and> matching_scores1 (assignment 1 1 (2 / 10) [[- 9]]) ! 0 \<noteq> 0"
  using cex_confidence_small
  by (simp add: SuperGlue_forward_def glue_weak_match_def one_keypoint_pair_def assignment_1x1)

text \<open>
  C2, amended. For non-empty keypoint sets, an entry of \<open>matches0\<close> equal to \<open>-1\<close> has
  confidence 0 (no mutual best match) or a positive confidence that does not exceed
  \<open>match_threshold\<close> (a mutual best match below the threshold); likewise for \<open>matches1\<close> and
  \<open>matching_scores1\<close>.
\<close>

theorem invalid_match_confidence:
  assumes "keypoints0 d \<noteq> []" "keypoints1 d \<noteq> []" "similarity sg d = Inr S"
    and "shaped (length (keypoints0 d)) (length (keypoints1 d)) S"
  shows "\<exists>out. SuperGlue_forward sg d = Inr out
           \<and> length (matching_scores0 out) = length (matches0 out)
           \<and> length (matching_scores1 out) = length (matches1 out)
           \<and> (\<forall>i < length (matches0 out). matches0 out ! i = - 1 \<longrightarrow>
                 matching_scores0 out ! i = 0
                 \<or> (0 < matching_scores0 out ! i
                    \<and> matching_scores0 out ! i \<le> match_threshold sg))
           \<and> (\<forall>j < length (matches1 out). matches1 out ! j = - 1 \<longrightarrow>
                 matching_scores1 out ! j = 0
                 \<or> (0 < matching_scores1 out ! j
                    \<and> matching_scores1 out ! j \<le> match_threshold sg))"
proof -
  let ?m = "length (keypoints0 d)" and ?n = "length (keypoints1 d)"
  let ?a = "bin_score sg" and ?it = "sinkhorn_iterations sg" and ?thr = "match_threshold sg"
  have m: "0 < ?m" and n: "0 < ?n" using assms by auto
  note alt = assignment_alt [OF assms(4) m n, of ?a ?it ?thr]
  let ?out = "assignment ?a ?it ?thr S"
  have f: "SuperGlue_forward sg d = Inr ?out"
    by (rule forward_nonempty [OF assms(1-3)])
  have l0: "length (matching_scores0 ?out) = length (matches0 ?out)"
    and l1: "length (matching_scores1 ?out) = length (matches1 ?out)"
    by (simp_all add: alt)
  have s0: "\<forall>i < length (matches0 ?out). matches0 ?out ! i = - 1 \<longrightarrow>
                 matching_scores0 ?out ! i = 0
                 \<or> (0 < matching_scores0 ?out ! i \<and> matching_scores0 ?out ! i \<le> ?thr)"
  proof (intro allI impI)
    fix i assume i: "i < length (matches0 ?out)" and v: "matches0 ?out ! i = - 1"
    from i have im: "i < ?m" by (simp add: alt)
    from v im have "\<not> (i = best1 ?a ?it S ! (best0 ?a ?it S ! i) \<and> ?thr < conf0 ?a ?it S i)"
      by (auto simp: alt split: if_splits)
    moreover have "i \<noteq> best1 ?a ?it S ! (best0 ?a ?it S ! i) \<Longrightarrow> conf0 ?a ?it S i = 0"
      by (simp add: conf0_def)
    ultimately have "conf0 ?a ?it S i = 0 \<or> conf0 ?a ?it S i \<le> ?thr" by auto
    then show "matching_scores0 ?out ! i = 0
                 \<or> (0 < matching_scores0 ?out ! i \<and> matching_scores0 ?out ! i \<le> ?thr)"
      using im conf0_zero_or_pos [of ?a ?it S i] by (auto simp: alt)
  qed
  have s1: "\<forall>j < length (matches1 ?out). matches1 ?out ! j = - 1 \<longrightarrow>
                 matching_scores1 ?out ! j = 0
                 \<or> (0 < matching_scores1 ?out ! j \<and> matching_scores1 ?out ! j \<le> ?thr)"
  proof (intro allI impI)
    fix j assume j: "j < length (matches1 ?out)" and v: "matches1 ?out ! j = - 1"
    from j have jn: "j < ?n" by (simp add: alt)
    let ?c = "conf0 ?a ?it S (best1 ?a ?it S ! j)"
    from v jn have "\<not> (j = best0 ?a ?it S ! (best1 ?a ?it S ! j) \<and> ?thr < ?c)"
      by (auto simp: alt split: if_splits)
    then show "matching_scores1 ?out ! j = 0
                 \<or> (0 < matching_scores1 ?out ! j \<and> matching_scores1 ?out ! j \<le> ?thr)"
      using jn conf0_zero_or_pos [of ?a ?it S "best1 ?a ?it S ! j"] by (auto simp: alt)
  qed
  show ?thesis
    using f l0 l1 s0 s1 by blast
qed

theorem invalid_match_confidence_witness:
  "keypoints0 one_keypoint_pair \<noteq> [] \<and> keypoints1 one_keypoint_pair \<noteq> [] \<and> similarity glue_weak_match one_keypoint_pair = Inr [[- 9]]
   \<and> shaped (length (keypoints0 one_keypoint_pair)) (length (keypoints1 one_keypoint_pair)) [[- 9]]
   \<and> (\<exists>out. SuperGlue_forward glue_weak_match one_keypoint_pair = Inr out
           \<and> length (matching_scores0 out) = length (matches0 out)
           \<and> length (matching_scores1 out) = length (matches1 out)
           \<and> (\<forall>i < length (matches0 out). matches0 out ! i = - 1 \<longrightarrow>
                 matching_scores0 out ! i = 0
                 \<or> (0 < matching_scores0 out ! i
                    \<and> matching_scores0 out ! i \<le> match_threshold glue_weak_match))
           \<and> (\<forall>j < length (matches1 out). matches1 out ! j = - 1 \<longrightarrow>
                 matching_scores1 out ! j = 0
                 \<or> (0 < matching_scores1 out ! j
                    \<and> matching_scores1 out ! j \<le> match_threshold glue_weak_match)))"
proof -
  have h1: "keypoints0 one_keypoint_pair \<noteq> []" and h2: "keypoints1 one_keypoint_pair \<noteq> []"
    by (simp_all add: one_keypoint_pair_def)
  have h3: "similarity glue_weak_match one_keypoint_pair = Inr [[- 9]]"
    by (simp add: glue_weak_match_def)
  have h4: "shaped (length (keypoints0 one_keypoint_pair)) (length (keypoints1 one_keypoint_pair)) [[- 9]]"
    by (simp add: one_keypoint_pair_def shaped_def)
  show ?thesis
    using invalid_match_confidence [OF h1 h2 h3 h4] h1 h2 h3 h4 by blast
qed

text \<open>
  C3. For non-empty keypoint sets the matches are symmetric: a valid \<open>matches0 ! i = j\<close> is
  an index into \<open>matches1\<close> with \<open>matches1 ! j = i\<close>, and conversely.
\<close>

theorem match_symmetry:
  assumes "keypoints0 d \<noteq> []" "keypoints1 d \<noteq> []" "similarity sg d = Inr S"
    and "shaped (length (keypoints0 d)) (length (keypoints1 d)) S"
  shows "\<exists>out. SuperGlue_forward sg d = Inr out
           \<and> length (matches0 out) = length (keypoints0 d)
           \<and> length (matches1 out) = length (keypoints1 d)
           \<and> (\<forall>i < length (matches0 out). matches0 out ! i \<noteq> - 1 \<longrightarrow>
                 0 \<le> matches0 out ! i \<and> nat (matches0 out ! i) < length (matches1 out)
                 \<and> matches1 out ! nat (matches0 out ! i) = int i)
           \<and> (\<forall>j < length (matches1 out). matches1 out ! j \<noteq> - 1 \<longrightarrow>
                 0 \<le> matches1 out ! j \<and> nat (matches1 out ! j) < length (matches0 out)
                 \<and> matches0 out ! nat (matches1 out ! j) = int j)"
proof -
  let ?m = "length (keypoints0 d)" and ?n = "length (keypoints1 d)"
  let ?a = "bin_score sg" and ?it = "sinkhorn_iterations sg" and ?thr = "match_threshold sg"
  have m: "0 < ?m" and n: "0 < ?n" using assms by auto
  note alt = assignment_alt [OF assms(4) m n, of ?a ?it ?thr]
  note b0 = best0_props(2) [OF assms(4) m n, of _ ?a ?it]
  note b1 = best1_props(2) [OF assms(4) m n, of _ ?a ?it]
  let ?out = "assignment ?a ?it ?thr S"
  have f: "SuperGlue_forward sg d = Inr ?out"
    by (rule forward_nonempty [OF assms(1-3)])
  have l0: "length (matches0 ?out) = ?m" and l1: "length (matches1 ?out) = ?n"
    by (simp_all add: alt)
  have s0: "\<forall>i < length (matches0 ?out). matches0 ?out ! i \<noteq> - 1 \<longrightarrow>
                 0 \<le> matches0 ?out ! i \<and> nat (matches0 ?out ! i) < length (matches1 ?out)
                 \<and> matches1 ?out ! nat (matches0 ?out ! i) = int i"
  proof (intro allI impI)
    fix i assume i: "i < length (matches0 ?out)" and v: "matches0 ?out ! i \<noteq> - 1"
    from i have im: "i < ?m" by (simp add: alt)
    from v im have mu: "i = best1 ?a ?it S ! (best0 ?a ?it S ! i)"
      and c: "?thr < conf0 ?a ?it S i"
      and e: "matches0 ?out ! i = int (best0 ?a ?it S ! i)"
      by (auto simp: alt split: if_splits)
    have jn: "best0 ?a ?it S ! i < ?n" by (rule b0 [OF im])
    show "0 \<le> matches0 ?out ! i \<and> nat (matches0 ?out ! i) < length (matches1 ?out)
                 \<and> matches1 ?out ! nat (matches0 ?out ! i) = int i"
      using jn mu c by (simp add: e l1) (simp add: alt mu [symmetric])
  qed
  have s1: "\<forall>j < length (matches1 ?out). matches1 ?out ! j \<noteq> - 1 \<longrightarrow>
                 0 \<le> matches1 ?out ! j \<and> nat (matches1 ?out ! j) < length (matches0 ?out)
                 \<and> matches0 ?out ! nat (matches1 ?out ! j) = int j"
  proof (intro allI impI)
    fix j assume j: "j < length (matches1 ?out)" and v: "matches1 ?out ! j \<noteq> - 1"
    from j have jn: "j < ?n" by (simp add: alt)
    from v jn have mu: "j = best0 ?a ?it S ! (best1 ?a ?it S ! j)"
      and c: "?thr < conf0 ?a ?it S (best1 ?a ?it S ! j)"
      and e: "matches1 ?out ! j = int (best1 ?a ?it S ! j)"
      by (auto simp: alt split: if_splits)
    have im: "best1 ?a ?it S ! j < ?m" by (rule b1 [OF jn])
    show "0 \<le> matches1 ?out ! j \<and> nat (matches1 ?out ! j) < length (matches0 ?out)
                 \<and> matches0 ?out ! nat (matches1 ?out ! j) = int j"
      using im mu c by (simp add: e l0) (simp add: alt mu [symmetric])
  qed
  show ?thesis
    using f l0 l1 s0 s1 by blast
qed

theorem match_symmetry_witness:
  "keypoints0 two_keypoint_pair \<noteq> [] \<and> keypoints1 two_keypoint_pair \<noteq> [] \<and> similarity glue_ranking two_keypoint_pair = Inr [[2, 0], [0, 2]]
   \<and> shaped (length (keypoints0 two_keypoint_pair)) (length (keypoints1 two_keypoint_pair)) [[2, 0], [0, 2]]
   \<and> (\<exists>out. SuperGlue_forward glue_ranking two_keypoint_pair = Inr out
           \<and> length (matches0 out) = length (keypoints0 two_keypoint_pair)
           \<and> length (matches1 out) = length (keypoints1 two_keypoint_pair)
           \<and> (\<forall>i < length (matches0 out). matches0 out ! i \<noteq> - 1 \<longrightarrow>
                 0 \<le> matches0 out ! i \<and> nat (matches0 out ! i) < length (matches1 out)
                 \<and> matches1 out ! nat (matches0 out ! i) = int i)
           \<and> (\<forall>j < length (matches1 out). matches1 out ! j \<noteq> - 1 \<longrightarrow>
                 0 \<le> matches1 out ! j \<and> nat (matches1 out ! j) < length (matches0 out)
                 \<and> matches0 out ! nat (matches1 out ! j) = int j))"
proof -
  have h1: "keypoints0 two_keypoint_pair \<noteq> []" and h2: "keypoints1 two_keypoint_pair \<noteq> []"
    by (simp_all add: two_keypoint_pair_def)
  have h3: "similarity glue_ranking two_keypoint_pair = Inr [[2, 0], [0, 2]]"
    by (simp add: glue_ranking_def)
  have h4: "shaped (length (keypoints0 two_keypoint_pair)) (length (keypoints1 two_keypoint_pair)) [[2, 0], [0, 2]]"
    by (simp add: two_keypoint_pair_def shaped_def)
  show ?thesis
    using match_symmetry [OF h1 h2 h3 h4] h1 h2 h3 h4 by blast
qed

text \<open>
  In exact real arithmetic, for non-empty keypoint sets and at least one Sinkhorn iteration,
  every entry of \<open>matching_scores0\<close> and \<open>matching_scores1\<close> lies between 0 and 1: after the
  last column normalisation every transport score outside the dustbin column is at most 0 in
  log space. The upper bound is approached as a match becomes certain, and the program computes
  \<open>logsumexp\<close> and \<open>exp\<close> in 32-bit floating point without clamping, so this lemma bounds the
  values the program approximates, not the rounded values it returns.
\<close>

lemma matching_scores_in_unit_interval_exact:
  assumes "keypoints0 d \<noteq> []" "keypoints1 d \<noteq> []" "similarity sg d = Inr S"
    and "shaped (length (keypoints0 d)) (length (keypoints1 d)) S"
    and "1 \<le> sinkhorn_iterations sg"
  shows "\<exists>out. SuperGlue_forward sg d = Inr out
           \<and> length (matching_scores0 out) = length (keypoints0 d)
           \<and> length (matching_scores1 out) = length (keypoints1 d)
           \<and> list_all (\<lambda>x. 0 \<le> x \<and> x \<le> 1) (matching_scores0 out)
           \<and> list_all (\<lambda>x. 0 \<le> x \<and> x \<le> 1) (matching_scores1 out)"
proof -
  let ?m = "length (keypoints0 d)" and ?n = "length (keypoints1 d)"
  let ?a = "bin_score sg" and ?it = "sinkhorn_iterations sg" and ?thr = "match_threshold sg"
  have m: "0 < ?m" and n: "0 < ?n" using assms by auto
  note alt = assignment_alt [OF assms(4) m n, of ?a ?it ?thr]
  note b1 = best1_props(2) [OF assms(4) m n, of _ ?a ?it]
  note le = conf0_le_1 [OF assms(4) m n _ assms(5), of _ ?a]
  let ?out = "assignment ?a ?it ?thr S"
  have f: "SuperGlue_forward sg d = Inr ?out"
    by (rule forward_nonempty [OF assms(1-3)])
  have l0: "length (matching_scores0 ?out) = ?m" and l1: "length (matching_scores1 ?out) = ?n"
    by (simp_all add: alt)
  have s0: "list_all (\<lambda>x. 0 \<le> x \<and> x \<le> 1) (matching_scores0 ?out)"
    using le by (auto simp: alt list_all_iff conf0_nonneg)
  have s1: "list_all (\<lambda>x. 0 \<le> x \<and> x \<le> 1) (matching_scores1 ?out)"
    using le b1 by (auto simp: alt list_all_iff conf0_nonneg)
  show ?thesis
    using f l0 l1 s0 s1 by blast
qed

text \<open>
  C7. When either keypoint set is empty, \<open>forward\<close> returns, whatever the network stage is
  (also one that would raise: it is not run), match arrays of \<open>-1\<close> and confidence arrays of 0,
  each as long as its keypoint set.
\<close>

theorem empty_keypoints_fast_path:
  assumes "keypoints0 d = [] \<or> keypoints1 d = []"
  shows "\<forall>f. SuperGlue_forward (sg\<lparr>similarity := f\<rparr>) d =
           Inr \<lparr>matches0 = replicate (length (keypoints0 d)) (- 1),
                matches1 = replicate (length (keypoints1 d)) (- 1),
                matching_scores0 = replicate (length (keypoints0 d)) 0,
                matching_scores1 = replicate (length (keypoints1 d)) 0\<rparr>"
  using assms by (auto simp: SuperGlue_forward_def Let_def)

theorem empty_keypoints_fast_path_witness:
  "(keypoints0 empty_pair = [] \<or> keypoints1 empty_pair = [])
   \<and> SuperGlue_forward glue_raising empty_pair =
       Inr \<lparr>matches0 = [], matches1 = [- 1, - 1, - 1],
            matching_scores0 = [], matching_scores1 = [0, 0, 0]\<rparr>"
proof -
  have h: "keypoints0 empty_pair = [] \<or> keypoints1 empty_pair = []"
    by (simp add: empty_pair_def)
  have "SuperGlue_forward (glue_raising\<lparr>similarity := similarity glue_raising\<rparr>) empty_pair =
           Inr \<lparr>matches0 = replicate (length (keypoints0 empty_pair)) (- 1),
                matches1 = replicate (length (keypoints1 empty_pair)) (- 1),
                matching_scores0 = replicate (length (keypoints0 empty_pair)) 0,
                matching_scores1 = replicate (length (keypoints1 empty_pair)) 0\<rparr>"
    using empty_keypoints_fast_path [OF h, of glue_raising] by blast
  then show ?thesis
    using h by (simp add: empty_pair_def numeral_3_eq_3)
qed

section \<open>Properties of the detector\<close>

subsection \<open>Non-maximum suppression\<close>

lemma near_refl: "near r i j i j"
  by (simp add: near_def)

lemma near_sym: "near r i j i' j' \<Longrightarrow> near r i' j' i j"
  by (simp add: near_def)

lemma set_window: "set (window r n i) = {i'. i' < n \<and> i' \<le> i + r \<and> i \<le> i' + r}"
  by (auto simp: window_def)

lemma pool_values:
  "set (concat (map (\<lambda>i'. map (\<lambda>j'. x ! i' ! j') (window r W j)) (window r H i)))
     = {x ! i' ! j' | i' j'. i' < H \<and> j' < W \<and> near r i j i' j'}"
  by (auto simp: set_window near_def)

lemma max_pool_at_eq:
  assumes "shaped H W x" "0 < H"
  shows "max_pool_at r x i j = Max {x ! i' ! j' | i' j'. i' < H \<and> j' < W \<and> near r i j i' j'}"
  unfolding max_pool_at_def shaped_width [OF assms] shaped_length [OF assms(1)] pool_values ..

lemma finite_pool: "finite {x ! i' ! j' | i' j'. i' < (H :: nat) \<and> j' < (W :: nat) \<and> near r i j i' j'}"
proof -
  have "{x ! i' ! j' | i' j'. i' < H \<and> j' < W \<and> near r i j i' j'}
          \<subseteq> (\<lambda>(i', j'). x ! i' ! j') ` ({..<H} \<times> {..<W})"
    by auto
  then show ?thesis by (rule finite_subset) simp
qed

lemma max_pool_shape: "shaped (length x) (width x) (max_pool r x)"
  by (simp add: max_pool_def)

lemma max_pool_nth:
  assumes "shaped H W x" "i < H" "j < W"
  shows "max_pool r x ! i ! j = Max {x ! i' ! j' | i' j'. i' < H \<and> j' < W \<and> near r i j i' j'}"
proof -
  have "0 < H" using assms by simp
  then show ?thesis
    using assms by (simp add: max_pool_def shaped_width shaped_length max_pool_at_eq)
qed

lemma max_pool_ge:
  assumes "shaped H W x" "i < H" "j < W" "i' < H" "j' < W" "near r i j i' j'"
  shows "x ! i' ! j' \<le> max_pool r x ! i ! j"
  unfolding max_pool_nth [OF assms(1-3)]
  by (rule Max_ge [OF finite_pool]) (use assms in auto)

lemma max_pool_attained:
  assumes "shaped H W x" "i < H" "j < W"
  shows "\<exists>i'<H. \<exists>j'<W. near r i j i' j' \<and> max_pool r x ! i ! j = x ! i' ! j'"
proof -
  let ?A = "{x ! i' ! j' | i' j'. i' < H \<and> j' < W \<and> near r i j i' j'}"
  have "x ! i ! j \<in> ?A" using assms near_refl by blast
  then have "?A \<noteq> {}" by blast
  from Max_in [OF finite_pool this] show ?thesis
    unfolding max_pool_nth [OF assms] by blast
qed

lemma max_pool_eq_iff:
  assumes "shaped H W x" "i < H" "j < W"
  shows "x ! i ! j = max_pool r x ! i ! j
           \<longleftrightarrow> (\<forall>i'<H. \<forall>j'<W. near r i j i' j' \<longrightarrow> x ! i' ! j' \<le> x ! i ! j)"
proof
  assume "x ! i ! j = max_pool r x ! i ! j"
  then show "\<forall>i'<H. \<forall>j'<W. near r i j i' j' \<longrightarrow> x ! i' ! j' \<le> x ! i ! j"
    using max_pool_ge [OF assms] by simp
next
  assume a: "\<forall>i'<H. \<forall>j'<W. near r i j i' j' \<longrightarrow> x ! i' ! j' \<le> x ! i ! j"
  obtain i' j' where "i' < H" "j' < W" "near r i j i' j'" "max_pool r x ! i ! j = x ! i' ! j'"
    using max_pool_attained [OF assms] by blast
  with a have "max_pool r x ! i ! j \<le> x ! i ! j" by simp
  moreover have "x ! i ! j \<le> max_pool r x ! i ! j"
    by (rule max_pool_ge [OF assms assms(2,3) near_refl])
  ultimately show "x ! i ! j = max_pool r x ! i ! j" by simp
qed

lemma to_float_shape: "shaped H W M \<Longrightarrow> 0 < H \<Longrightarrow> shaped H W (to_float M)"
  by (simp add: to_float_def shaped_width shaped_length)

lemma to_float_nth:
  "shaped H W M \<Longrightarrow> i < H \<Longrightarrow> j < W \<Longrightarrow> to_float M ! i ! j = (if M ! i ! j then 1 else 0)"
  by (simp add: to_float_def shaped_width shaped_length)

lemma supp_mask_shape:
  assumes "shaped H W M" "0 < H"
  shows "shaped H W (gt0 (max_pool r (to_float M)))"
proof -
  have "shaped H W (max_pool r (to_float M))"
    using max_pool_shape [of "to_float M" r] to_float_shape [OF assms] assms(2)
    by (simp add: shaped_width shaped_length)
  then show ?thesis
    using assms(2) by (simp add: gt0_def shaped_width shaped_length)
qed

lemma supp_mask_nth:
  assumes "shaped H W M" "i < H" "j < W"
  shows "gt0 (max_pool r (to_float M)) ! i ! j \<longleftrightarrow> suppressed r H W M i j"
proof -
  have H: "0 < H" using assms by simp
  note fs = to_float_shape [OF assms(1) H]
  have ps: "shaped H W (max_pool r (to_float M))"
    using max_pool_shape [of "to_float M" r] fs H by (simp add: shaped_width shaped_length)
  have g: "gt0 (max_pool r (to_float M)) ! i ! j \<longleftrightarrow> 0 < max_pool r (to_float M) ! i ! j"
    using ps assms H by (simp add: gt0_def shaped_width shaped_length)
  show ?thesis
  proof
    assume "gt0 (max_pool r (to_float M)) ! i ! j"
    then have pos: "0 < max_pool r (to_float M) ! i ! j" by (simp add: g)
    obtain i' j' where n: "i' < H" "j' < W" "near r i j i' j'"
      and e: "max_pool r (to_float M) ! i ! j = to_float M ! i' ! j'"
      using max_pool_attained [OF fs assms(2,3)] by blast
    from pos e n have "M ! i' ! j'"
      using to_float_nth [OF assms(1) n(1,2)] by (simp split: if_splits)
    with n show "suppressed r H W M i j" by (auto simp: suppressed_def)
  next
    assume "suppressed r H W M i j"
    then obtain i' j' where n: "i' < H" "j' < W" "near r i j i' j'" and m: "M ! i' ! j'"
      by (auto simp: suppressed_def)
    have "to_float M ! i' ! j' \<le> max_pool r (to_float M) ! i ! j"
      by (rule max_pool_ge [OF fs assms(2,3) n])
    then have "0 < max_pool r (to_float M) ! i ! j"
      using to_float_nth [OF assms(1) n(1,2)] m by simp
    then show "gt0 (max_pool r (to_float M)) ! i ! j" by (simp add: g)
  qed
qed

lemma supp_scores_shape:
  assumes "shaped H W M" "0 < H"
  shows "shaped H W (where2 (gt0 (max_pool r (to_float M))) (zeros_like s) s)"
  using supp_mask_shape [OF assms, of r] assms(2)
  by (simp add: where2_def shaped_width shaped_length)

lemma supp_scores_nth:
  assumes "shaped H W s" "shaped H W M" "i < H" "j < W"
  shows "where2 (gt0 (max_pool r (to_float M))) (zeros_like s) s ! i ! j = supp_score r H W s M i j"
proof -
  have H: "0 < H" using assms by simp
  show ?thesis
    using supp_mask_shape [OF assms(2) H, of r] supp_mask_nth [OF assms(2-4), of r] assms H
    by (simp add: where2_def zeros_like_def supp_score_def shaped_width shaped_length)
qed

lemma nms_round_shape:
  assumes "shaped H W M" "0 < H"
  shows "shaped H W (nms_round r s M)"
  using assms by (simp add: nms_round_def Let_def or_and_not_def shaped_width shaped_length)

lemma nms_round_nth:
  assumes "shaped H W s" "shaped H W M" "i < H" "j < W"
  shows "nms_round r s M ! i ! j \<longleftrightarrow>
           M ! i ! j \<or>
           ((\<forall>i'<H. \<forall>j'<W. near r i j i' j' \<longrightarrow>
               supp_score r H W s M i' j' \<le> supp_score r H W s M i j)
            \<and> \<not> suppressed r H W M i j)"
proof -
  have H: "0 < H" using assms by simp
  let ?ss = "where2 (gt0 (max_pool r (to_float M))) (zeros_like s) s"
  note sh = supp_scores_shape [OF assms(2) H, of r s]
  have n: "eq2 ?ss (max_pool r ?ss) ! i ! j \<longleftrightarrow>
             (\<forall>i'<H. \<forall>j'<W. near r i j i' j' \<longrightarrow>
               supp_score r H W s M i' j' \<le> supp_score r H W s M i j)"
    using sh assms H max_pool_eq_iff [OF sh assms(3,4), of r]
      supp_scores_nth [OF assms(1,2), of _ _ r]
    by (simp add: eq2_def shaped_width shaped_length)
  show ?thesis
    using n supp_mask_nth [OF assms(2-4), of r] assms H
    by (simp add: nms_round_def Let_def or_and_not_def shaped_width shaped_length)
qed

lemma tabulate2_cong:
  "(\<And>i j. i < H \<Longrightarrow> j < W \<Longrightarrow> f i j = g i j) \<Longrightarrow> tabulate2 H W f = tabulate2 H W g"
  by (simp add: tabulate2_def)

lemma tabulate2_0 [simp]: "tabulate2 0 W f = []"
  by (simp add: tabulate2_def)

lemma initial_mask_shape: "shaped H W s \<Longrightarrow> 0 < H \<Longrightarrow> shaped H W (eq2 s (max_pool r s))"
  by (simp add: eq2_def shaped_width shaped_length)

lemma initial_mask_nth:
  assumes "shaped H W s" "i < H" "j < W"
  shows "eq2 s (max_pool r s) ! i ! j
           \<longleftrightarrow> (\<forall>i'<H. \<forall>j'<W. near r i j i' j' \<longrightarrow> s ! i' ! j' \<le> s ! i ! j)"
proof -
  have "0 < H" using assms by simp
  then show ?thesis
    using assms max_pool_eq_iff [OF assms, of r]
    by (simp add: eq2_def shaped_width shaped_length)
qed

lemma compatible_initial:
  assumes "shaped H W s"
  shows "compatible r H W s (eq2 s (max_pool r s))"
  unfolding compatible_def
  using initial_mask_nth [OF assms] by blast

lemma compatible_round:
  assumes s: "shaped H W s" and M: "shaped H W M" and c: "compatible r H W s M"
  shows "compatible r H W s (nms_round r s M)"
  unfolding compatible_def
proof (intro allI impI)
  fix i j i' j'
  assume b: "i < H" "j < W" "i' < H" "j' < W"
    and a: "nms_round r s M ! i ! j \<and> nms_round r s M ! i' ! j' \<and> near r i j i' j'"
  note p = nms_round_nth [OF s M b(1,2), of r]
  note q = nms_round_nth [OF s M b(3,4), of r]
  from a have n: "near r i j i' j'" by simp
  then have n': "near r i' j' i j" by (rule near_sym)
  show "s ! i' ! j' \<le> s ! i ! j"
  proof (cases "M ! i ! j")
    case True
    then have sq: "suppressed r H W M i' j'"
      using b n' by (auto simp: suppressed_def)
    with a q have "M ! i' ! j'" by simp
    with True c b n show ?thesis by (simp add: compatible_def)
  next
    case False
    with a p have np: "\<not> suppressed r H W M i j"
      and mx: "\<forall>i'<H. \<forall>j'<W. near r i j i' j' \<longrightarrow>
                 supp_score r H W s M i' j' \<le> supp_score r H W s M i j"
      by simp_all
    from np b n have nq: "\<not> M ! i' ! j'" by (auto simp: suppressed_def)
    with a q have "\<not> suppressed r H W M i' j'" by simp
    moreover from mx b n
    have "supp_score r H W s M i' j' \<le> supp_score r H W s M i j" by blast
    ultimately show ?thesis using np by (simp add: supp_score_def)
  qed
qed

lemma nms_round_mono:
  assumes "shaped H W s" "shaped H W M" "i < H" "j < W" "M ! i ! j"
  shows "nms_round r s M ! i ! j"
  using nms_round_nth [OF assms(1-4), of r] assms(5) by simp

lemma nms_loop_props:
  assumes "shaped H W s" "0 < H" "shaped H W M" "compatible r H W s M"
  shows "shaped H W (nms_loop k r s M) \<and> compatible r H W s (nms_loop k r s M)
           \<and> (\<forall>i<H. \<forall>j<W. M ! i ! j \<longrightarrow> nms_loop k r s M ! i ! j)"
  using assms(3,4)
proof (induction k arbitrary: M)
  case 0
  then show ?case by simp
next
  case (Suc k)
  have sh: "shaped H W (nms_round r s M)"
    by (rule nms_round_shape [OF Suc.prems(1) assms(2)])
  have co: "compatible r H W s (nms_round r s M)"
    by (rule compatible_round [OF assms(1) Suc.prems])
  from Suc.IH [OF sh co] nms_round_mono [OF assms(1) Suc.prems(1)]
  show ?case by simp
qed

lemma nms_mask_props:
  assumes "shaped H W s" "0 < H"
  shows "shaped H W (nms_mask r s)" "compatible r H W s (nms_mask r s)"
    "\<And>i j. i < H \<Longrightarrow> j < W \<Longrightarrow> eq2 s (max_pool r s) ! i ! j \<Longrightarrow> nms_mask r s ! i ! j"
proof -
  have "shaped H W (nms_loop 2 r s (eq2 s (max_pool r s)))
          \<and> compatible r H W s (nms_loop 2 r s (eq2 s (max_pool r s)))
          \<and> (\<forall>i<H. \<forall>j<W. eq2 s (max_pool r s) ! i ! j
                 \<longrightarrow> nms_loop 2 r s (eq2 s (max_pool r s)) ! i ! j)"
    by (rule nms_loop_props [OF assms initial_mask_shape [OF assms] compatible_initial [OF assms(1)]])
  then show "shaped H W (nms_mask r s)" "compatible r H W s (nms_mask r s)"
    "\<And>i j. i < H \<Longrightarrow> j < W \<Longrightarrow> eq2 s (max_pool r s) ! i ! j \<Longrightarrow> nms_mask r s ! i ! j"
    by (simp_all add: nms_mask_def del: nms_loop.simps)
qed

lemma where2_zeros:
  assumes "shaped H W M" "shaped H W a" "0 < H"
  shows "where2 M a (zeros_like a) = tabulate2 H W (\<lambda>i j. if M ! i ! j then a ! i ! j else 0)"
  unfolding where2_def zeros_like_def
    shaped_width [OF assms(1,3)] shaped_length [OF assms(1)]
    shaped_width [OF assms(2,3)] shaped_length [OF assms(2)]
  by (rule tabulate2_cong) simp

lemma simple_nms_eq:
  "0 \<le> radius \<Longrightarrow>
   simple_nms s radius = Inr (where2 (nms_mask (nat radius) s) s (zeros_like s))"
  by (simp add: simple_nms_def Let_def nms_mask_def)

lemma shaped_0: "shaped 0 W s \<Longrightarrow> s = []"
  by (simp add: shaped_def)

lemma nms_loop_Nil: "nms_loop k r [] [] = []"
  by (induction k) (simp_all add: nms_round_def Let_def or_and_not_def)

lemma simple_nms_Nil: "0 \<le> radius \<Longrightarrow> simple_nms [] radius = Inr []"
  by (simp add: simple_nms_eq nms_mask_def eq2_def nms_loop_Nil where2_def del: nms_loop.simps)

lemma suppressed_output:
  assumes "shaped H W s" "0 < H"
  shows "shaped H W (where2 (nms_mask r s) s (zeros_like s))"
    and "\<And>i j. i < H \<Longrightarrow> j < W \<Longrightarrow>
           where2 (nms_mask r s) s (zeros_like s) ! i ! j
             = (if nms_mask r s ! i ! j then s ! i ! j else 0)"
  unfolding where2_zeros [OF nms_mask_props(1) [OF assms] assms]
  by simp_all

lemma nms_fixed_point:
  assumes s: "shaped H W s" and H: "0 < H"
    and nn: "\<And>i j. i < H \<Longrightarrow> j < W \<Longrightarrow> 0 \<le> s ! i ! j"
  shows "where2 (nms_mask r (where2 (nms_mask r s) s (zeros_like s)))
           (where2 (nms_mask r s) s (zeros_like s))
           (zeros_like (where2 (nms_mask r s) s (zeros_like s)))
         = where2 (nms_mask r s) s (zeros_like s)"
proof -
  let ?M = "nms_mask r s"
  let ?out = "where2 ?M s (zeros_like s)"
  let ?M' = "nms_mask r ?out"
  note Ms = nms_mask_props(1) [OF s H, of r]
  note Mc = nms_mask_props(2) [OF s H, of r]
  note os = suppressed_output(1) [OF s H, of r]
  note on = suppressed_output(2) [OF s H, of _ _ r]
  note M's = nms_mask_props(1) [OF os H, of r]
  note o'n = suppressed_output(2) [OF os H, of _ _ r]
  have keep: "?M' ! i ! j" if b: "i < H" "j < W" and m: "?M ! i ! j" for i j
  proof -
    have "\<forall>i'<H. \<forall>j'<W. near r i j i' j' \<longrightarrow> ?out ! i' ! j' \<le> ?out ! i ! j"
    proof (intro allI impI)
      fix i' j' assume b': "i' < H" "j' < W" and n: "near r i j i' j'"
      show "?out ! i' ! j' \<le> ?out ! i ! j"
      proof (cases "?M ! i' ! j'")
        case True
        with Mc b b' m n have "s ! i' ! j' \<le> s ! i ! j" by (simp add: compatible_def)
        with True m b b' show ?thesis by (simp add: on)
      next
        case False
        with m b b' nn [OF b] show ?thesis by (simp add: on)
      qed
    qed
    then have "eq2 ?out (max_pool r ?out) ! i ! j"
      by (simp add: initial_mask_nth [OF os b])
    then show ?thesis
      by (rule nms_mask_props(3) [OF os H b])
  qed
  have "where2 ?M' ?out (zeros_like ?out) =
          tabulate2 H W (\<lambda>i j. if ?M' ! i ! j then ?out ! i ! j else 0)"
    by (rule where2_zeros [OF M's os H])
  also have "\<dots> = tabulate2 H W (\<lambda>i j. if ?M ! i ! j then s ! i ! j else 0)"
    by (rule tabulate2_cong) (use keep on in auto)
  also have "\<dots> = ?out"
    by (rule where2_zeros [OF Ms s H, symmetric])
  finally show ?thesis .
qed

lemma simple_nms_constant:
  assumes "0 \<le> radius"
  shows "simple_nms (tabulate2 H W (\<lambda>i j. c)) radius = Inr (tabulate2 H W (\<lambda>i j. c))"
proof (cases "H = 0")
  case True
  then show ?thesis using assms by (simp add: simple_nms_Nil)
next
  case False
  then have H: "0 < H" by simp
  let ?s = "tabulate2 H W (\<lambda>i j. c)"
  let ?r = "nat radius"
  have s: "shaped H W ?s" by simp
  note Ms = nms_mask_props(1) [OF s H, of ?r]
  have all: "nms_mask ?r ?s ! i ! j" if "i < H" "j < W" for i j
  proof -
    have "eq2 ?s (max_pool ?r ?s) ! i ! j"
      using that by (simp add: initial_mask_nth [OF s that])
    then show ?thesis by (rule nms_mask_props(3) [OF s H that])
  qed
  have "where2 (nms_mask ?r ?s) ?s (zeros_like ?s)
          = tabulate2 H W (\<lambda>i j. if nms_mask ?r ?s ! i ! j then ?s ! i ! j else 0)"
    by (rule where2_zeros [OF Ms s H])
  also have "\<dots> = ?s"
    by (rule tabulate2_cong) (simp add: all)
  finally show ?thesis
    using assms by (simp add: simple_nms_eq)
qed

text \<open>
  C5. \<open>simple_nms\<close> is idempotent on score maps: for a rectangular map with non-negative
  entries (probabilities are in \<open>[0, 1]\<close>) and a non-negative radius, suppression returns a map
  on which a second suppression with the same radius changes nothing.
\<close>

theorem simple_nms_idempotent:
  assumes "shaped H W scores" and "list_all (list_all (\<lambda>x. 0 \<le> x)) scores"
    and "0 \<le> radius"
  shows "\<exists>out. simple_nms scores radius = Inr out \<and> simple_nms out radius = Inr out"
proof (cases "H = 0")
  case True
  with assms(1) have "scores = []" by (simp add: shaped_0)
  then show ?thesis using assms(3) by (simp add: simple_nms_Nil)
next
  case False
  then have H: "0 < H" by simp
  have nn: "0 \<le> scores ! i ! j" if "i < H" "j < W" for i j
    using assms(1,2) that by (simp add: shaped_def list_all_length)
  show ?thesis
    using nms_fixed_point [OF assms(1) H nn, of "nat radius"] assms(3)
    by (simp add: simple_nms_eq)
qed

theorem simple_nms_idempotent_witness:
  "shaped 2 3 [[1 / 10, 3 / 10, 0], [2 / 10, 3 / 10, 1 / 2 :: real]]
   \<and> list_all (list_all (\<lambda>x. 0 \<le> x)) [[1 / 10, 3 / 10, 0], [2 / 10, 3 / 10, 1 / 2 :: real]]
   \<and> (0 :: int) \<le> 1
   \<and> (\<exists>out. simple_nms [[1 / 10, 3 / 10, 0], [2 / 10, 3 / 10, 1 / 2]] 1 = Inr out
             \<and> simple_nms out 1 = Inr out)"
proof -
  have h1: "shaped 2 3 [[1 / 10, 3 / 10, 0], [2 / 10, 3 / 10, 1 / 2 :: real]]"
    by (simp add: shaped_def)
  have h2: "list_all (list_all (\<lambda>x. 0 \<le> x)) [[1 / 10, 3 / 10, 0], [2 / 10, 3 / 10, 1 / 2 :: real]]"
    by simp
  have h3: "(0 :: int) \<le> 1" by simp
  show ?thesis
    using simple_nms_idempotent [OF h1 h2 h3] h1 h2 h3 by blast
qed

text \<open>
  Outside the range of score maps the suppression is not idempotent: with negative scores a
  suppressed cell, set to 0, exceeds the kept ones.
\<close>

lemma simple_nms_negative_scores:
  "simple_nms [[- 1, - 2]] 1 = Inr [[- 1, 0]] \<and> simple_nms [[- 1, 0]] 1 = Inr [[0, 0]]"
  by code_simp

subsection \<open>The detector on a flat network\<close>

lemma sum_list_replicate_real: "sum_list (replicate n (c :: real)) = real n * c"
  by (induction n) (simp_all add: algebra_simps)

lemma softmax_flat: "softmax (replicate 65 0) = replicate 65 (1 / 65)"
  by (simp add: softmax_def sum_list_replicate_real)

lemma score_map_flat:
  "score_map (replicate 2 (replicate 2 (replicate 65 0))) = Inr (tabulate2 16 16 (\<lambda>i j. 1 / 65))"
proof -
  have ok: "list_all (list_all (\<lambda>c. length c = 65)) (replicate 2 (replicate 2 (replicate 65 (0 :: real))))"
    by (simp add: list_all_iff)
  have w: "width (replicate 2 (replicate 2 (replicate 65 (0 :: real)))) = 2"
    by (simp add: width_def numeral_2_eq_2)
  have cell: "butlast (softmax (replicate 2 (replicate 2 (replicate 65 0)) ! (i div 8) ! (j div 8)))
                ! ((i mod 8) * 8 + j mod 8) = 1 / 65"
    if "i < 16" "j < 16" for i j
  proof -
    have "i div 8 < 2" "j div 8 < 2" using that by simp_all
    then have c: "replicate 2 (replicate 2 (replicate 65 (0 :: real))) ! (i div 8) ! (j div 8)
                   = replicate 65 0"
      by simp
    have "(i mod 8) * 8 + j mod 8 < 64"
    proof -
      have "i mod 8 \<le> 7" "j mod 8 \<le> 7" by simp_all
      then show ?thesis by linarith
    qed
    then show ?thesis
      by (simp add: c softmax_flat butlast_conv_take)
  qed
  have t: "tabulate2 16 16
             (\<lambda>i j. butlast (softmax (replicate 2 (replicate 2 (replicate 65 0)) ! (i div 8)
                                       ! (j div 8))) ! ((i mod 8) * 8 + j mod 8))
           = tabulate2 16 16 (\<lambda>i j. 1 / 65)"
    by (rule tabulate2_cong) (rule cell)
  have "score_map (replicate 2 (replicate 2 (replicate 65 0))) =
          Inr (tabulate2 (2 * 8) (2 * 8)
             (\<lambda>i j. butlast (softmax (replicate 2 (replicate 2 (replicate 65 0)) ! (i div 8)
                                       ! (j div 8))) ! ((i mod 8) * 8 + j mod 8)))"
    unfolding score_map_def Let_def w using ok by simp
  then show ?thesis
    by (simp only: t mult_2 numeral_Bit0 [symmetric] flip: mult_2) (simp add: t)
qed

lemma flat_eval:
  "(case remove_borders (nonzero_gt (5 / 1000) (tabulate2 16 16 (\<lambda>i j. 1 / 65)))
           (map (\<lambda>k. tabulate2 16 16 (\<lambda>i j. 1 / 65) ! nat (fst k) ! nat (snd k))
                (nonzero_gt (5 / 1000) (tabulate2 16 16 (\<lambda>i j. 1 / 65)))) 4 16 16 of
      Inl e \<Rightarrow> Inl e
    | Inr (ks, ss) \<Rightarrow>
        (case top_k_keypoints ks ss 1024 of
           Inl e \<Rightarrow> Inl e
         | Inr (ks, ss) \<Rightarrow> Inr (length ks))) = (Inr 64 :: error + nat)"
  by code_simp

lemma flat_forward_count:
  "keypoint_count (SuperPoint_forward \<lparr>config = cfg, net = flat_network\<rparr> ()) = Inr 64"
proof -
  let ?F = "tabulate2 16 16 (\<lambda>i j. 1 / 65 :: real)"
  have nms: "simple_nms ?F 4 = Inr ?F"
    by (rule simple_nms_constant) simp
  have w: "width (replicate 2 (replicate 2 (replicate 65 (0 :: real)))) = 2"
    by (simp add: width_def numeral_2_eq_2)
  obtain ks ss ks' ss' where
    rb: "remove_borders (nonzero_gt (5 / 1000) ?F)
           (map (\<lambda>k. ?F ! nat (fst k) ! nat (snd k)) (nonzero_gt (5 / 1000) ?F)) 4 16 16
         = Inr (ks, ss)"
    and tk: "top_k_keypoints ks ss 1024 = Inr (ks', ss')" and len: "length ks' = 64"
    using flat_eval by (auto split: sum.splits prod.splits)
  show ?thesis
    using rb tk len
    unfolding SuperPoint_forward_def keypoint_count_def Let_def flat_network_def
    by (simp add: score_map_flat nms w)
qed

subsection \<open>Border removal and construction\<close>

lemma select_mask_map:
  "length xs = length ks \<Longrightarrow>
   select_mask (map P ks) xs = Inr (map snd (filter (\<lambda>(k, x). P k) (zip ks xs)))"
proof -
  assume len: "length xs = length ks"
  have "map snd (filter fst (zip (map P ks) xs)) = map snd (filter (\<lambda>(k, x). P k) (zip ks xs))"
    using len by (induction ks xs rule: list_induct2') auto
  with len show ?thesis by (simp add: select_mask_def)
qed

lemma select_mask_self: "select_mask (map P ks) ks = Inr (filter P ks)"
proof -
  have "map snd (filter fst (zip (map P ks) ks)) = filter P ks"
    by (induction ks) auto
  then show ?thesis by (simp add: select_mask_def)
qed

lemma border_mask_eq:
  "map2 (\<and>) (map P ks) (map Q ks) = map (\<lambda>k. P k \<and> Q k) ks"
  by (induction ks) auto

lemma remove_borders_eq:
  assumes "length scores = length keypoints"
  shows "remove_borders keypoints scores border height w =
           Inr (filter (\<lambda>k. (border \<le> fst k \<and> fst k < height - border)
                            \<and> (border \<le> snd k \<and> snd k < w - border)) keypoints,
                map snd (filter (\<lambda>(k, s). (border \<le> fst k \<and> fst k < height - border)
                                         \<and> (border \<le> snd k \<and> snd k < w - border))
                           (zip keypoints scores)))"
  unfolding remove_borders_def Let_def border_mask_eq
  by (simp add: select_mask_self select_mask_map [OF assms])

lemma zip_filter_fst:
  "length xs = length ks \<Longrightarrow>
   zip (filter P ks) (map snd (filter (\<lambda>(k, x). P k) (zip ks xs)))
     = filter (\<lambda>(k, x). P k) (zip ks xs)"
  by (induction ks xs rule: list_induct2') auto

text \<open>
  C8. For parallel keypoint and score lists and any border, \<open>remove_borders\<close> returns exactly
  the keypoints with \<open>border \<le> x < width - border\<close> and \<open>border \<le> y < height - border\<close>
  (\<open>y\<close> the row, \<open>x\<close> the column), in their order, each still paired with its own score; so
  every kept keypoint lies in that range.
\<close>

theorem remove_borders_exact:
  assumes "length scores = length keypoints"
  shows "\<exists>ks ss. remove_borders keypoints scores border height w = Inr (ks, ss)
           \<and> ks = filter (\<lambda>(y, x). border \<le> x \<and> x < w - border
                                  \<and> border \<le> y \<and> y < height - border) keypoints
           \<and> zip ks ss = filter (\<lambda>((y, x), s). border \<le> x \<and> x < w - border
                                  \<and> border \<le> y \<and> y < height - border) (zip keypoints scores)
           \<and> length ss = length ks
           \<and> list_all (\<lambda>(y, x). border \<le> x \<and> x < w - border
                                  \<and> border \<le> y \<and> y < height - border) ks"
proof -
  let ?P = "\<lambda>k. (border \<le> fst k \<and> fst k < height - border)
                 \<and> (border \<le> snd k \<and> snd k < w - border)"
  let ?ks = "filter ?P keypoints"
  let ?ss = "map snd (filter (\<lambda>(k, s). ?P k) (zip keypoints scores))"
  have P: "(\<lambda>(y, x). border \<le> x \<and> x < w - border \<and> border \<le> y \<and> y < height - border) = ?P"
    by (auto simp: fun_eq_iff)
  have P2: "(\<lambda>((y, x), s). border \<le> x \<and> x < w - border \<and> border \<le> y \<and> y < height - border)
              = (\<lambda>(k, s :: 'a). ?P k)"
    by (auto simp: fun_eq_iff)
  have r: "remove_borders keypoints scores border height w = Inr (?ks, ?ss)"
    by (rule remove_borders_eq [OF assms])
  have z: "zip ?ks ?ss = filter (\<lambda>(k, s). ?P k) (zip keypoints scores)"
    by (rule zip_filter_fst [OF assms])
  have l: "length ?ss = length ?ks"
    using assms by (induction keypoints scores rule: list_induct2') auto
  have a: "list_all ?P ?ks"
    by (simp add: list_all_iff)
  show ?thesis
    unfolding P P2 using r z l a by blast
qed

theorem remove_borders_exact_witness:
  "length [10, 20, 30, 40, 50 :: nat] = length [(0, 5), (4, 4), (12, 7), (7, 12), (6, 9 :: int) :: int \<times> int]
   \<and> (\<exists>ks ss. remove_borders [(0, 5), (4, 4), (12, 7), (7, 12), (6, 9)]
                    [10, 20, 30, 40, 50 :: nat] 4 16 16 = Inr (ks, ss)
          \<and> ks = [(4, 4), (6, 9)]
          \<and> zip ks ss = [((4, 4), 20), ((6, 9), 50)]
          \<and> length ss = length ks)"
  using remove_borders_exact [of "[10, 20, 30, 40, 50 :: nat]"
      "[(0, 5), (4, 4), (12, 7), (7, 12), (6, 9)]" 4 16 16]
  by simp

text \<open>
  C9. Construction with \<open>max_keypoints\<close> equal to 0 or below \<open>-1\<close> never returns a detector,
  so no inference can follow, and once the weights have loaded the exception is the
  configuration error (\<open>ValueError\<close>); with a positive value or \<open>-1\<close> the check accepts the
  configuration and the detector is returned, carrying the merged configuration.
\<close>

theorem SuperPoint_init_max_keypoints:
  fixes load :: "int \<Rightarrow> error + 'img network"
  shows "(let cfg = merge_config default_config c; mk = max_keypoints cfg
          in (mk = 0 \<or> mk < - 1 \<longrightarrow>
                (\<exists>e. SuperPoint_init load c = Inl e)
                \<and> (\<forall>nw. load (descriptor_dim cfg) = Inr nw \<longrightarrow>
                       SuperPoint_init load c = Inl ValueError))
           \<and> (mk > 0 \<or> mk = - 1 \<longrightarrow>
                (\<forall>nw. load (descriptor_dim cfg) = Inr nw \<longrightarrow>
                       SuperPoint_init load c = Inr \<lparr>config = cfg, net = nw\<rparr>)))"
  by (auto simp: SuperPoint_init_def Let_def split: sum.splits)

theorem SuperPoint_init_max_keypoints_witness:
  "SuperPoint_init (\<lambda>d. Inr \<lparr>logits = (\<lambda>u :: unit. []), describe = (\<lambda>u k. [])\<rparr>)
     \<lparr>descriptor_dim_opt = None, nms_radius_opt = None, keypoint_threshold_opt = None,
      max_keypoints_opt = Some 0, remove_borders_opt = None\<rparr> = Inl ValueError
   \<and> SuperPoint_init (\<lambda>d. Inr \<lparr>logits = (\<lambda>u :: unit. []), describe = (\<lambda>u k. [])\<rparr>)
     \<lparr>descriptor_dim_opt = None, nms_radius_opt = None, keypoint_threshold_opt = None,
      max_keypoints_opt = Some (- 7), remove_borders_opt = None\<rparr> = Inl ValueError
   \<and> SuperPoint_init (\<lambda>d. Inr \<lparr>logits = (\<lambda>u :: unit. []), describe = (\<lambda>u k. [])\<rparr>)
     \<lparr>descriptor_dim_opt = None, nms_radius_opt = None, keypoint_threshold_opt = None,
      max_keypoints_opt = None, remove_borders_opt = None\<rparr>
     = Inr \<lparr>config = default_config,
            net = \<lparr>logits = (\<lambda>u :: unit. []), describe = (\<lambda>u k. [])\<rparr>\<rparr>"
  using
    SuperPoint_init_max_keypoints [of
      "\<lparr>descriptor_dim_opt = None, nms_radius_opt = None, keypoint_threshold_opt = None,
        max_keypoints_opt = Some 0, remove_borders_opt = None\<rparr>"
      "\<lambda>d. Inr \<lparr>logits = (\<lambda>u :: unit. []), describe = (\<lambda>u k. [])\<rparr>"]
    SuperPoint_init_max_keypoints [of
      "\<lparr>descriptor_dim_opt = None, nms_radius_opt = None, keypoint_threshold_opt = None,
        max_keypoints_opt = Some (- 7), remove_borders_opt = None\<rparr>"
      "\<lambda>d. Inr \<lparr>logits = (\<lambda>u :: unit. []), describe = (\<lambda>u k. [])\<rparr>"]
    SuperPoint_init_max_keypoints [of
      "\<lparr>descriptor_dim_opt = None, nms_radius_opt = None, keypoint_threshold_opt = None,
        max_keypoints_opt = None, remove_borders_opt = None\<rparr>"
      "\<lambda>d. Inr \<lparr>logits = (\<lambda>u :: unit. []), describe = (\<lambda>u k. [])\<rparr>"]
  by (simp add: merge_config_def default_config_def)

subsection \<open>The forward pass and the configuration\<close>

lemma top_k_length:
  assumes "top_k_keypoints ks ss k = Inr (ks', ss')" "0 \<le> k"
  shows "length ks' \<le> nat k"
  using assms
  by (auto simp: top_k_keypoints_def Let_def split: if_splits)

lemma top_k_lengths_eq:
  assumes "top_k_keypoints ks ss k = Inr (ks', ss')" "length ss = length ks"
  shows "length ss' = length ks'"
  using assms
  by (auto simp: top_k_keypoints_def Let_def split: if_splits)

lemma top_k_total:
  assumes "length ss = length ks" "0 \<le> k"
  shows "\<exists>ks' ss'. top_k_keypoints ks ss k = Inr (ks', ss')"
proof -
  have "list_all (\<lambda>i. i < length ks) (take (nat k) (sort_key (\<lambda>i. - (ss ! i)) [0..<length ss]))"
    using assms(1) by (auto simp: list_all_iff dest!: in_set_takeD)
  then show ?thesis
    using assms by (auto simp: top_k_keypoints_def Let_def)
qed

lemma top_k_truncates:
  assumes "length ss = length ks" "0 \<le> k" "nat k < length ks"
  shows "\<exists>ks' ss'. top_k_keypoints ks ss k = Inr (ks', ss') \<and> length ks' = nat k"
proof -
  have "list_all (\<lambda>i. i < length ks) (take (nat k) (sort_key (\<lambda>i. - (ss ! i)) [0..<length ss]))"
    using assms(1) by (auto simp: list_all_iff dest!: in_set_takeD)
  then show ?thesis
    using assms by (auto simp: top_k_keypoints_def Let_def)
qed

lemma remove_borders_total:
  assumes "length ss = length ks"
  shows "\<exists>ks' ss'. remove_borders ks ss b h w = Inr (ks', ss') \<and> length ss' = length ks'"
proof -
  have "length (map snd (filter (\<lambda>(k, s). (b \<le> fst k \<and> fst k < h - b) \<and> (b \<le> snd k \<and> snd k < w - b))
                  (zip ks ss)))
        = length (filter (\<lambda>k. (b \<le> fst k \<and> fst k < h - b) \<and> (b \<le> snd k \<and> snd k < w - b)) ks)"
    using assms by (induction ks ss rule: list_induct2') auto
  then show ?thesis
    by (simp add: remove_borders_eq [OF assms])
qed

lemma simple_nms_total: "0 \<le> radius \<Longrightarrow> \<exists>out. simple_nms s radius = Inr out"
  by (simp add: simple_nms_eq)

lemma forward_cases:
  assumes "list_all (list_all (\<lambda>c. length c = 65)) (logits (net self) img)"
  shows "\<exists>out. SuperPoint_forward self img = Inr out
           \<and> length (det_keypoints out) \<le> 1024
           \<and> length (det_scores out) = length (det_keypoints out)"
proof -
  let ?lg = "logits (net self) img"
  obtain sm where sm: "score_map ?lg = Inr sm"
    using assms by (simp add: score_map_def Let_def)
  obtain nm where nm: "simple_nms sm 4 = Inr nm"
    using simple_nms_total [of 4 sm] by auto
  let ?kp = "nonzero_gt (5 / 1000) nm"
  let ?sc = "map (\<lambda>k. nm ! nat (fst k) ! nat (snd k)) ?kp"
  have "length ?sc = length ?kp" by simp
  from remove_borders_total [OF this]
  obtain ks ss where rb: "remove_borders ?kp ?sc 4 (int (length ?lg * 8)) (int (width ?lg * 8))
                            = Inr (ks, ss)"
    and l: "length ss = length ks" by blast
  obtain ks' ss' where tk: "top_k_keypoints ks ss 1024 = Inr (ks', ss')"
    using top_k_total [OF l, of 1024] by auto
  have "length ks' \<le> 1024"
    using top_k_length [OF tk] by simp
  moreover have "length ss' = length ks'"
    by (rule top_k_lengths_eq [OF tk l])
  ultimately show ?thesis
    using sm nm rb tk
    unfolding SuperPoint_forward_def Let_def
    by simp
qed

lemma forward_net_only:
  assumes "net a = net b"
  shows "SuperPoint_forward a img = SuperPoint_forward b img"
  unfolding SuperPoint_forward_def assms by (rule refl)

lemma init_Inr:
  assumes "SuperPoint_init load c = Inr self"
  shows "config self = merge_config default_config c"
    and "load (descriptor_dim (config self)) = Inr (net self)"
  using assms
  by (auto simp: SuperPoint_init_def Let_def split: sum.splits if_splits)

text \<open>
  C4, as stated, fails: \<open>forward\<close> never reads \<open>max_keypoints\<close>. A detector constructed with
  \<open>max_keypoints = 1\<close> on a network whose logits are all equal (every pixel of the 16x16 score
  map is 1/65, a plateau that survives the suppression) returns the 64 keypoints inside the
  border, not at most one.
\<close>

theorem max_keypoints_not_honoured_counterexample:
  "SuperPoint_init flat_load one_keypoint_dict
     = Inr \<lparr>config = merge_config default_config one_keypoint_dict, net = flat_network\<rparr>
   \<and> max_keypoints (merge_config default_config one_keypoint_dict) = 1
   \<and> keypoint_count
        (SuperPoint_forward
           \<lparr>config = merge_config default_config one_keypoint_dict, net = flat_network\<rparr> ())
       = Inr 64"
  by (simp add: flat_forward_count)
     (simp add: SuperPoint_init_def flat_load_def merge_config_def default_config_def
        one_keypoint_dict_def)

text \<open>
  C4, amended. For every detector, whatever its configuration (\<open>max_keypoints\<close> equal to
  \<open>-1\<close> or positive), the per-image output has at most 1024 keypoints, with as many scores,
  and it is the same for every configuration: the cap is the literal 1024 of \<open>forward\<close>. (When
  more than 1024 keypoints remain after the border removal, \<open>top_k_keypoints\<close> keeps exactly
  1024: \<open>top_k_truncates\<close>.)
\<close>

theorem keypoints_capped_at_1024:
  assumes "list_all (list_all (\<lambda>c. length c = 65)) (logits (net self) img)"
  shows "\<exists>out. SuperPoint_forward self img = Inr out
           \<and> length (det_keypoints out) \<le> 1024
           \<and> length (det_scores out) = length (det_keypoints out)
           \<and> (\<forall>cfg. SuperPoint_forward (self\<lparr>config := cfg\<rparr>) img = Inr out)"
proof -
  obtain out where o: "SuperPoint_forward self img = Inr out"
    and l: "length (det_keypoints out) \<le> 1024"
      "length (det_scores out) = length (det_keypoints out)"
    using forward_cases [OF assms] by blast
  have "SuperPoint_forward (self\<lparr>config := cfg\<rparr>) img = Inr out" for cfg
    using forward_net_only [of "self\<lparr>config := cfg\<rparr>" self img] o by simp
  with o l show ?thesis by blast
qed

theorem keypoints_capped_at_1024_witness:
  "list_all (list_all (\<lambda>c. length c = 65))
     (logits (net \<lparr>config = default_config, net = flat_network\<rparr>) ())
   \<and> (\<exists>out. SuperPoint_forward \<lparr>config = default_config, net = flat_network\<rparr> () = Inr out
           \<and> length (det_keypoints out) \<le> 1024
           \<and> length (det_scores out) = length (det_keypoints out)
           \<and> (\<forall>cfg. SuperPoint_forward
                      (\<lparr>config = default_config, net = flat_network\<rparr>\<lparr>config := cfg\<rparr>) ()
                    = Inr out))"
proof -
  have h: "list_all (list_all (\<lambda>c. length c = 65))
             (logits (net \<lparr>config = default_config, net = flat_network\<rparr>) ())"
    by (simp add: flat_network_def list_all_iff)
  show ?thesis
    using keypoints_capped_at_1024 [OF h] h by blast
qed

text \<open>
  C10. Inference does not depend on \<open>nms_radius\<close>, \<open>keypoint_threshold\<close>,
  \<open>remove_borders\<close> or \<open>max_keypoints\<close>: two detectors constructed from accepted
  configurations with the same \<open>descriptor_dim\<close> (hence the same loaded network) return the same
  output on every image, and replacing the configuration of a detector changes nothing.
\<close>

theorem forward_ignores_config:
  assumes "SuperPoint_init load c1 = Inr det1" and "SuperPoint_init load c2 = Inr det2"
    and "descriptor_dim (config det1) = descriptor_dim (config det2)"
  shows "SuperPoint_forward det1 img = SuperPoint_forward det2 img
         \<and> (\<forall>cfg. SuperPoint_forward (det1\<lparr>config := cfg\<rparr>) img = SuperPoint_forward det1 img)"
proof -
  have "SuperPoint_forward (det1\<lparr>config := cfg\<rparr>) img = SuperPoint_forward det1 img" for cfg
    by (rule forward_net_only) simp
  moreover
  have "Inr (net det1) = (Inr (net det2) :: error + 'a network)"
    using init_Inr(2) [OF assms(1)] init_Inr(2) [OF assms(2)] assms(3) by simp
  then have "net det1 = net det2" by simp
  then have "SuperPoint_forward det1 img = SuperPoint_forward det2 img"
    by (rule forward_net_only)
  ultimately show ?thesis by blast
qed

theorem forward_ignores_config_witness:
  "SuperPoint_init flat_load default_dict
     = Inr \<lparr>config = merge_config default_config default_dict, net = flat_network\<rparr>
   \<and> SuperPoint_init flat_load one_keypoint_dict
     = Inr \<lparr>config = merge_config default_config one_keypoint_dict, net = flat_network\<rparr>
   \<and> descriptor_dim (config \<lparr>config = merge_config default_config default_dict,
                               net = flat_network\<rparr>)
     = descriptor_dim (config \<lparr>config = merge_config default_config one_keypoint_dict,
                               net = flat_network\<rparr>)
   \<and> max_keypoints (merge_config default_config default_dict) = - 1
   \<and> max_keypoints (merge_config default_config one_keypoint_dict) = 1
   \<and> SuperPoint_forward \<lparr>config = merge_config default_config default_dict,
                          net = flat_network\<rparr> ()
     = SuperPoint_forward \<lparr>config = merge_config default_config one_keypoint_dict,
                            net = flat_network\<rparr> ()"
proof -
  have h1: "SuperPoint_init flat_load default_dict
     = Inr \<lparr>config = merge_config default_config default_dict, net = flat_network\<rparr>"
    by (simp add: SuperPoint_init_def flat_load_def merge_config_def default_config_def
        default_dict_def)
  have h2: "SuperPoint_init flat_load one_keypoint_dict
     = Inr \<lparr>config = merge_config default_config one_keypoint_dict, net = flat_network\<rparr>"
    by (simp add: SuperPoint_init_def flat_load_def merge_config_def default_config_def
        one_keypoint_dict_def)
  have h3: "descriptor_dim (config \<lparr>config = merge_config default_config default_dict,
                               net = flat_network\<rparr>)
     = descriptor_dim (config \<lparr>config = merge_config default_config one_keypoint_dict,
                               net = flat_network\<rparr>)"
    by (simp add: merge_config_def default_dict_def one_keypoint_dict_def)
  have m: "max_keypoints (merge_config default_config default_dict) = - 1"
    "max_keypoints (merge_config default_config one_keypoint_dict) = 1"
    by (simp_all add: merge_config_def default_config_def default_dict_def one_keypoint_dict_def)
  show ?thesis
    using forward_ignores_config [OF h1 h2 h3, of "()"] h1 h2 h3 m by blast
qed

end
